theory Spec2Isabelle
  imports Main "HOL-Library.Char_ord" "HOL-Library.List_Lexorder"
begin

section \<open>Strings\<close>

text \<open>
  Strings are modelled as lists of characters, a character being a code point below
  256. On these, \<^verbatim>\<open>lower\<close> folds the letters A to Z and the capital letters of the
  range U+00C0 to U+00DE (all but the multiplication sign U+00D7), and \<^verbatim>\<open>strip\<close>
  removes the characters for which \<^verbatim>\<open>isspace\<close> holds: U+0009 to U+000D, U+001C to
  U+0020, U+0085 and U+00A0.
\<close>

definition backslash :: char where
  "backslash = CHR 0x5C"

definition upper_letters :: string where
  "upper_letters =
     ''ABCDEFGHIJKLMNOPQRSTUVWXYZ'' @
     [CHR 0xC0, CHR 0xC1, CHR 0xC2, CHR 0xC3, CHR 0xC4, CHR 0xC5, CHR 0xC6, CHR 0xC7,
      CHR 0xC8, CHR 0xC9, CHR 0xCA, CHR 0xCB, CHR 0xCC, CHR 0xCD, CHR 0xCE, CHR 0xCF,
      CHR 0xD0, CHR 0xD1, CHR 0xD2, CHR 0xD3, CHR 0xD4, CHR 0xD5, CHR 0xD6,
      CHR 0xD8, CHR 0xD9, CHR 0xDA, CHR 0xDB, CHR 0xDC, CHR 0xDD, CHR 0xDE]"

definition lower_letters :: string where
  "lower_letters =
     ''abcdefghijklmnopqrstuvwxyz'' @
     [CHR 0xE0, CHR 0xE1, CHR 0xE2, CHR 0xE3, CHR 0xE4, CHR 0xE5, CHR 0xE6, CHR 0xE7,
      CHR 0xE8, CHR 0xE9, CHR 0xEA, CHR 0xEB, CHR 0xEC, CHR 0xED, CHR 0xEE, CHR 0xEF,
      CHR 0xF0, CHR 0xF1, CHR 0xF2, CHR 0xF3, CHR 0xF4, CHR 0xF5, CHR 0xF6,
      CHR 0xF8, CHR 0xF9, CHR 0xFA, CHR 0xFB, CHR 0xFC, CHR 0xFD, CHR 0xFE]"

definition lower_char :: "char \<Rightarrow> char" where
  "lower_char c =
     (case map_of (zip upper_letters lower_letters) c of
        Some l \<Rightarrow> l
      | None \<Rightarrow> c)"

definition lower :: "string \<Rightarrow> string" where
  "lower s = map lower_char s"

definition is_space :: "char \<Rightarrow> bool" where
  "is_space c \<longleftrightarrow>
     c \<in> set [CHR 0x20, CHR 0x09, CHR 0x0A, CHR 0x0B, CHR 0x0C, CHR 0x0D,
               CHR 0x1C, CHR 0x1D, CHR 0x1E, CHR 0x1F, CHR 0x85, CHR 0xA0]"

definition strip :: "string \<Rightarrow> string" where
  "strip s = rev (dropWhile is_space (rev (dropWhile is_space s)))"

definition replace_space :: "string \<Rightarrow> string" where
  \<comment> \<open>\<^verbatim>\<open>s.replace(" ", "_")\<close>\<close>
  "replace_space s = map (\<lambda>c. if c = CHR '' '' then CHR ''_'' else c) s"

definition normalize_field :: "string \<Rightarrow> string" where
  \<comment> \<open>\<^verbatim>\<open>key.lower().strip().replace(" ", "_")\<close>\<close>
  "normalize_field key = replace_space (strip (lower key))"

fun starts_with :: "string \<Rightarrow> string \<Rightarrow> bool" where
  "starts_with [] s = True"
| "starts_with (p # ps) [] = False"
| "starts_with (p # ps) (c # cs) = (p = c \<and> starts_with ps cs)"

fun str_in :: "string \<Rightarrow> string \<Rightarrow> bool" where
  \<comment> \<open>\<^verbatim>\<open>usr in rec\<close> on strings: \<open>usr\<close> occurs in \<open>rec\<close> as a contiguous substring\<close>
  "str_in u [] = (u = [])"
| "str_in u (c # cs) = (starts_with u (c # cs) \<or> str_in u cs)"

section \<open>Splitting on unescaped delimiters and removing escapes\<close>

text \<open>
  \<^verbatim>\<open>re.split("(?<!\\\\)([" + chars + "]+)", s, max_splits)\<close>: a match starts at the
  first character of \<open>chars\<close> that is not preceded by a backslash and extends over the
  maximal run of characters of \<open>chars\<close>; the result alternates the text between matches
  and the matched runs (the capture group). \<open>maxsplit = 0\<close> means no bound on the
  number of splits. \<open>esc\<close> says whether the previous character of the input was a
  backslash, \<open>n\<close> counts the splits made, \<open>cur\<close> is the text since the last match.
\<close>

function re_split_aux :: "string \<Rightarrow> nat \<Rightarrow> nat \<Rightarrow> bool \<Rightarrow> string \<Rightarrow> string \<Rightarrow> string list" where
  "re_split_aux chars maxsplit n esc cur [] = [cur]"
| "re_split_aux chars maxsplit n esc cur (c # cs) =
     (if c \<in> set chars \<and> \<not> esc \<and> \<not> (maxsplit \<noteq> 0 \<and> maxsplit \<le> n) then
        cur # takeWhile (\<lambda>x. x \<in> set chars) (c # cs) #
          re_split_aux chars maxsplit (Suc n)
            (last (takeWhile (\<lambda>x. x \<in> set chars) (c # cs)) = backslash) []
            (dropWhile (\<lambda>x. x \<in> set chars) (c # cs))
      else re_split_aux chars maxsplit n (c = backslash) (cur @ [c]) cs)"
  by pat_completeness auto
termination
proof (relation "measure (\<lambda>(chars, maxsplit, n, esc, cur, s). length s)")
  show "wf (measure (\<lambda>(chars, maxsplit, n, esc, cur, s). length s))"
    by simp
next
  fix chars :: string and maxsplit n :: nat and esc :: bool and cur :: string
    and c :: char and cs :: string
  assume "c \<in> set chars \<and> \<not> esc \<and> \<not> (maxsplit \<noteq> 0 \<and> maxsplit \<le> n)"
  then have "dropWhile (\<lambda>x. x \<in> set chars) (c # cs) = dropWhile (\<lambda>x. x \<in> set chars) cs"
    by simp
  moreover have "length (dropWhile (\<lambda>x. x \<in> set chars) cs) \<le> length cs"
    by (rule length_dropWhile_le)
  ultimately show "((chars, maxsplit, Suc n,
         last (takeWhile (\<lambda>x. x \<in> set chars) (c # cs)) = backslash, [],
         dropWhile (\<lambda>x. x \<in> set chars) (c # cs)),
        (chars, maxsplit, n, esc, cur, c # cs))
       \<in> measure (\<lambda>(chars, maxsplit, n, esc, cur, s). length s)"
    by simp
next
  fix chars :: string and maxsplit n :: nat and esc :: bool and cur :: string
    and c :: char and cs :: string
  show "((chars, maxsplit, n, c = backslash, cur @ [c], cs),
        (chars, maxsplit, n, esc, cur, c # cs))
       \<in> measure (\<lambda>(chars, maxsplit, n, esc, cur, s). length s)"
    by simp
qed

definition re_split :: "string \<Rightarrow> string \<Rightarrow> nat \<Rightarrow> string list" where
  "re_split chars s maxsplit = re_split_aux chars maxsplit 0 False [] s"

fun every_other :: "'a list \<Rightarrow> 'a list" where
  \<comment> \<open>\<^verbatim>\<open>chunks[::2]\<close>\<close>
  "every_other [] = []"
| "every_other [x] = [x]"
| "every_other (x # y # xs) = x # every_other xs"

definition split_on_chars :: "string \<Rightarrow> string \<Rightarrow> nat option \<Rightarrow> bool \<Rightarrow> string list" where
  \<comment> \<open>\<^verbatim>\<open>_split_on_chars(s, chars, max_splits=None, keep_delimiters=False)\<close>\<close>
  "split_on_chars s chars max_splits keep_delimiters =
     (let max_splits' = (case max_splits of None \<Rightarrow> 0 | Some m \<Rightarrow> m);
          chunks = re_split chars s max_splits'
      in if keep_delimiters then chunks else every_other chunks)"

fun remove_escapes :: "string \<Rightarrow> string \<Rightarrow> string" where
  \<comment> \<open>\<^verbatim>\<open>re.sub("\\\(" + "|".join(chars) + ")", "\\1", s)\<close>: every backslash that is
      followed by a character of \<open>chars\<close> is dropped, scanning left to right\<close>
  "remove_escapes [] chars = []"
| "remove_escapes [b] chars = [b]"
| "remove_escapes (b # c # rest) chars =
     (if b = backslash \<and> c \<in> set chars then c # remove_escapes rest chars
      else b # remove_escapes (c # rest) chars)"

definition special_chars :: string where
  "special_chars = '',:=<>''"

section \<open>Values, records and errors\<close>

text \<open>
  A datetime is its wall-clock reading, as a count of time units from a fixed origin
  (seconds in the examples), and, when it is timezone-aware, its offset from UTC and the identity of its \<^verbatim>\<open>tzinfo\<close> object. The
  UTC instant of an aware datetime is the reading minus the offset.
\<close>

datatype datetime = Naive int | Aware int int nat

datatype pyval = PNone | PStr string | PInt int | PDatetime datetime

text \<open>A metadata record is a dict from attribute names to values, in insertion order.\<close>

type_synonym metadata = "(string \<times> pyval) list"

text \<open>
  The exceptions the engine can raise. The first three are the \<^verbatim>\<open>KeyError\<close>s raised
  with a message by \<^verbatim>\<open>_make_match_fcn\<close> and \<^verbatim>\<open>_filter_records\<close>, with the values
  formatted into the message; \<open>KeyError\<close> is the one of a failed dict lookup.
\<close>

datatype error =
    InvalidSearchKey string string string "string list"
      \<comment> \<open>search string, key, normalized key, \<^verbatim>\<open>list(field_map)\<close>\<close>
  | InvalidSearchDelimiter string string
      \<comment> \<open>search string, delimiter\<close>
  | InvalidSortField string string "string list"
      \<comment> \<open>sort-by field, normalized field, \<^verbatim>\<open>list(field_map)\<close>\<close>
  | KeyError string
  | TypeError
  | AttributeError
  | ValueError string
  | UnpackError

text \<open>
  The functions the engine calls that are not part of the listed source are parameters:
  the byte-size parser and renderer of \<^verbatim>\<open>eta.core.utils\<close>, the ISO-8601 parser of
  \<^verbatim>\<open>dateutil\<close>, the local zone of \<^verbatim>\<open>tzlocal\<close> (its UTC offset at a UTC instant and the
  \<^verbatim>\<open>tzinfo\<close> object it attaches to a datetime at that instant), the offset the system's
  local time gives to a naive wall-clock reading, and the rendering of a datetime by
  \<^verbatim>\<open>strftime("%Y-%m-%d %H:%M:%S %Z")\<close> and by \<^verbatim>\<open>str\<close>. Values compare as in Python 3.
\<close>

record env =
  from_human_bytes_str :: "string \<Rightarrow> error + int"
  to_human_bytes_str :: "int \<Rightarrow> string"
  isoparse :: "string \<Rightarrow> error + datetime"
  localzone_utcoffset :: "int \<Rightarrow> int"
  localzone_tzinfo :: "int \<Rightarrow> nat"
  system_utcoffset :: "int \<Rightarrow> int"
  strftime :: "datetime \<Rightarrow> string"
  datetime_str :: "datetime \<Rightarrow> string"

definition digit_char :: "nat \<Rightarrow> char" where
  "digit_char n = ''0123456789'' ! (n mod 10)"

fun str_of_nat :: "nat \<Rightarrow> string" where
  "str_of_nat n = (if n < 10 then [digit_char n] else str_of_nat (n div 10) @ [digit_char n])"

declare str_of_nat.simps [simp del]

definition str_of_int :: "int \<Rightarrow> string" where
  "str_of_int i = (if i < 0 then CHR ''-'' # str_of_nat (nat (- i)) else str_of_nat (nat i))"

fun py_str :: "env \<Rightarrow> pyval \<Rightarrow> string" where
  \<comment> \<open>\<^verbatim>\<open>str(rec)\<close>\<close>
  "py_str E PNone = ''None''"
| "py_str E (PStr s) = s"
| "py_str E (PInt n) = str_of_int n"
| "py_str E (PDatetime d) = datetime_str E d"

definition getitem :: "metadata \<Rightarrow> string \<Rightarrow> error + pyval" where
  \<comment> \<open>\<^verbatim>\<open>record[name]\<close>\<close>
  "getitem record name' =
     (case map_of record name' of None \<Rightarrow> Inl (KeyError name') | Some v \<Rightarrow> Inr v)"

section \<open>Datetimes\<close>

definition localize :: "env \<Rightarrow> int \<Rightarrow> datetime" where
  \<comment> \<open>the UTC instant \<open>u\<close> read in the local zone (\<^verbatim>\<open>tz.fromutc\<close>)\<close>
  "localize E u = Aware (u + localzone_utcoffset E u) (localzone_utcoffset E u) (localzone_tzinfo E u)"

fun astimezone_local :: "env \<Rightarrow> datetime \<Rightarrow> datetime" where
  \<comment> \<open>\<^verbatim>\<open>dt.astimezone(get_localzone())\<close>: the same UTC instant, read in the local zone;
      a naive datetime is taken to be in the system's local time\<close>
  "astimezone_local E (Aware w off tz) = localize E (w - off)"
| "astimezone_local E (Naive w) = localize E (w - system_utcoffset E w)"

fun parse_datetime :: "env \<Rightarrow> pyval \<Rightarrow> error + datetime" where
  \<comment> \<open>\<^verbatim>\<open>_parse_datetime(datetime_or_str)\<close>\<close>
  "parse_datetime E (PStr s) =
     (case isoparse E s of Inl e \<Rightarrow> Inl e | Inr dt \<Rightarrow> Inr (astimezone_local E dt))"
| "parse_datetime E (PDatetime dt) = Inr (astimezone_local E dt)"
| "parse_datetime E PNone = Inl AttributeError"
| "parse_datetime E (PInt n) = Inl AttributeError"

definition render_datetime :: "env \<Rightarrow> pyval \<Rightarrow> error + string" where
  \<comment> \<open>\<^verbatim>\<open>_render_datetime(dt)\<close>\<close>
  "render_datetime E dt =
     (case parse_datetime E dt of Inl e \<Rightarrow> Inl e | Inr d \<Rightarrow> Inr (strftime E d))"

fun render_bytes :: "env \<Rightarrow> pyval \<Rightarrow> error + string" where
  \<comment> \<open>\<^verbatim>\<open>_render_bytes(size)\<close>; \<^verbatim>\<open>size < 0\<close> on a string or a datetime raises\<close>
  "render_bytes E PNone = Inr ''-''"
| "render_bytes E (PInt n) = (if n < 0 then Inr ''-'' else Inr (to_human_bytes_str E n))"
| "render_bytes E (PStr s) = Inl TypeError"
| "render_bytes E (PDatetime d) = Inl TypeError"

section \<open>Searchers\<close>

datatype cmp_op = OpEq | OpGt | OpGe | OpLt | OpLe

fun apply_op :: "cmp_op \<Rightarrow> 'a::linorder \<Rightarrow> 'a \<Rightarrow> bool" where
  \<comment> \<open>\<^verbatim>\<open>operator.eq\<close>, \<^verbatim>\<open>gt\<close>, \<^verbatim>\<open>ge\<close>, \<^verbatim>\<open>lt\<close>, \<^verbatim>\<open>le\<close> applied as \<^verbatim>\<open>op(a, b)\<close>\<close>
  "apply_op OpEq a b = (a = b)"
| "apply_op OpGt a b = (a > b)"
| "apply_op OpGe a b = (a \<ge> b)"
| "apply_op OpLt a b = (a < b)"
| "apply_op OpLe a b = (a \<le> b)"

datatype searcher =
    StringSearcher (searcher_name: string)
  | BytesSearcher (searcher_name: string)
  | DatetimeSearcher (searcher_name: string)

fun dt_op :: "cmp_op \<Rightarrow> datetime \<Rightarrow> datetime \<Rightarrow> error + bool" where
  \<comment> \<open>\<^verbatim>\<open>op(a, b)\<close> on datetimes: two aware datetimes of the same \<^verbatim>\<open>tzinfo\<close> compare by
      their readings, of different ones by their UTC instants; a naive and an aware
      one are unequal, and ordering them raises\<close>
  "dt_op op' (Aware a x t) (Aware b y t') =
     Inr (if t = t' then apply_op op' a b else apply_op op' (a - x) (b - y))"
| "dt_op op' (Naive a) (Naive b) = Inr (apply_op op' a b)"
| "dt_op op' (Naive a) (Aware b y t') = (if op' = OpEq then Inr False else Inl TypeError)"
| "dt_op op' (Aware a x t) (Naive b) = (if op' = OpEq then Inr False else Inl TypeError)"

fun contains :: "env \<Rightarrow> searcher \<Rightarrow> string \<Rightarrow> pyval \<Rightarrow> error + bool" where
  "contains E (StringSearcher nm) usr rec = Inr (str_in usr (py_str E rec))"
| "contains E (BytesSearcher nm) usr rec =
     (case render_bytes E rec of Inl e \<Rightarrow> Inl e | Inr rec_str \<Rightarrow> Inr (str_in usr rec_str))"
| "contains E (DatetimeSearcher nm) usr rec =
     (case render_datetime E rec of Inl e \<Rightarrow> Inl e | Inr rec_str \<Rightarrow> Inr (str_in usr rec_str))"

fun int_op :: "cmp_op \<Rightarrow> int \<Rightarrow> pyval \<Rightarrow> error + bool" where
  \<comment> \<open>\<^verbatim>\<open>op(usr_bytes, rec)\<close> with an integer on the left: against a value that is not a
      number, equality is false and an ordering raises\<close>
  "int_op op' u (PInt n) = Inr (apply_op op' u n)"
| "int_op op' u v = (if op' = OpEq then Inr False else Inl TypeError)"

fun compare :: "env \<Rightarrow> searcher \<Rightarrow> string \<Rightarrow> pyval \<Rightarrow> cmp_op \<Rightarrow> error + bool" where
  "compare E (StringSearcher nm) usr rec op' = Inr (apply_op op' usr (py_str E rec))"
| "compare E (BytesSearcher nm) usr rec op' =
     (case from_human_bytes_str E usr of
        Inl e \<Rightarrow> Inl e
      | Inr usr_bytes \<Rightarrow> int_op op' usr_bytes rec)"
| "compare E (DatetimeSearcher nm) usr rec op' =
     (case parse_datetime E rec of
        Inl e \<Rightarrow> Inl e
      | Inr rec_dt \<Rightarrow>
          (case parse_datetime E (PStr usr) of
             Inl e \<Rightarrow> Inl e
           | Inr usr_dt \<Rightarrow> dt_op op' usr_dt rec_dt))"

type_synonym field_map = "(string \<times> searcher) list"

definition S3_SEARCH_FIELDS_MAP :: field_map where
  "S3_SEARCH_FIELDS_MAP =
     [(''bucket'', StringSearcher ''bucket''),
      (''name'', StringSearcher ''object_name''),
      (''size'', BytesSearcher ''size''),
      (''type'', StringSearcher ''mime_type''),
      (''last_modified'', DatetimeSearcher ''last_modified'')]"

definition GCS_SEARCH_FIELDS_MAP :: field_map where
  "GCS_SEARCH_FIELDS_MAP =
     [(''bucket'', StringSearcher ''bucket''),
      (''name'', StringSearcher ''object_name''),
      (''size'', BytesSearcher ''size''),
      (''type'', StringSearcher ''mime_type''),
      (''last_modified'', DatetimeSearcher ''last_modified'')]"

definition GOOGLE_DRIVE_SEARCH_FIELDS_MAP :: field_map where
  "GOOGLE_DRIVE_SEARCH_FIELDS_MAP =
     [(''id'', StringSearcher ''id''),
      (''name'', StringSearcher ''name''),
      (''size'', BytesSearcher ''size''),
      (''type'', StringSearcher ''mime_type''),
      (''last_modified'', DatetimeSearcher ''last_modified'')]"

definition SEARCH_COMPARISON_OPERATORS :: "(string \<times> cmp_op) list" where
  "SEARCH_COMPARISON_OPERATORS =
     [(''=='', OpEq), (''<'', OpGt), (''<='', OpGe), (''>'', OpLt), (''>='', OpLe)]"

section \<open>The query parser\<close>

type_synonym match_fcn = "metadata \<Rightarrow> error + bool"

definition searcher_map :: "field_map \<Rightarrow> string \<Rightarrow> searcher option" where
  \<comment> \<open>\<^verbatim>\<open>{s.name: s for s in itervalues(field_map)}\<close>: a later searcher of the same
      name replaces an earlier one\<close>
  "searcher_map fm = map_of (rev (map (\<lambda>(k, s). (searcher_name s, s)) fm))"

fun any_match_fcn :: "env \<Rightarrow> (string \<Rightarrow> searcher option) \<Rightarrow> string \<Rightarrow> match_fcn" where
  \<comment> \<open>the loop over the record's items: the first field that contains the value
      answers True, an exception of \<open>contains\<close> ends the loop\<close>
  "any_match_fcn E sm v [] = Inr False"
| "any_match_fcn E sm v ((name', x) # rest) =
     (case sm name' of
        None \<Rightarrow> any_match_fcn E sm v rest
      | Some sr \<Rightarrow>
          (case contains E sr v x of
             Inl e \<Rightarrow> Inl e
           | Inr b \<Rightarrow> if b then Inr True else any_match_fcn E sm v rest))"

definition make_any_match_fcn :: "env \<Rightarrow> string \<Rightarrow> field_map \<Rightarrow> match_fcn" where
  "make_any_match_fcn E v fm =
     (let v' = strip (remove_escapes v special_chars);
          sm = searcher_map fm
      in any_match_fcn E sm v')"

definition make_match_fcn ::
  "env \<Rightarrow> string \<Rightarrow> string \<Rightarrow> string \<Rightarrow> field_map \<Rightarrow> string \<Rightarrow> error + match_fcn" where
  "make_match_fcn E key v delimiter fm search_str =
     (let key_normalized = normalize_field key;
          v' = strip (remove_escapes v special_chars)
      in case map_of fm key_normalized of
           None \<Rightarrow> Inl (InvalidSearchKey search_str key key_normalized (map fst fm))
         | Some sr \<Rightarrow>
             if delimiter = '':'' then
               Inr (\<lambda>record. case getitem record (searcher_name sr) of
                                Inl e \<Rightarrow> Inl e
                              | Inr x \<Rightarrow> contains E sr v' x)
             else
               (case map_of SEARCH_COMPARISON_OPERATORS delimiter of
                  None \<Rightarrow> Inl (InvalidSearchDelimiter search_str delimiter)
                | Some op' \<Rightarrow>
                    Inr (\<lambda>record. case getitem record (searcher_name sr) of
                                     Inl e \<Rightarrow> Inl e
                                   | Inr x \<Rightarrow> compare E sr v' x op')))"

definition parse_clause :: "env \<Rightarrow> field_map \<Rightarrow> string \<Rightarrow> string \<Rightarrow> error + match_fcn" where
  \<comment> \<open>the body of the loop of \<^verbatim>\<open>_parse_search_str\<close> for the clause \<open>s\<close>\<close>
  "parse_clause E fm search_str s =
     (case split_on_chars s '':=<>'' (Some 1) True of
        [v] \<Rightarrow> Inr (make_any_match_fcn E v fm)
      | [key, delimiter, v] \<Rightarrow> make_match_fcn E key v delimiter fm search_str
      | _ \<Rightarrow> Inl UnpackError)"

definition parse_search_str :: "env \<Rightarrow> string \<Rightarrow> field_map \<Rightarrow> (error + match_fcn) list" where
  \<comment> \<open>the generator \<^verbatim>\<open>_parse_search_str\<close>: one item per clause, each either the
      predicate it yields or the exception it raises when the generator reaches it\<close>
  "parse_search_str E search_str fm =
     map (parse_clause E fm search_str) (split_on_chars search_str '','' None False)"

section \<open>The record filter pipeline\<close>

fun filter_by :: "match_fcn \<Rightarrow> metadata list \<Rightarrow> error + metadata list" where
  \<comment> \<open>\<^verbatim>\<open>[r for r in records if match_fcn(r)]\<close>\<close>
  "filter_by f [] = Inr []"
| "filter_by f (r # rs) =
     (case f r of
        Inl e \<Rightarrow> Inl e
      | Inr b \<Rightarrow>
          (case filter_by f rs of
             Inl e \<Rightarrow> Inl e
           | Inr rs' \<Rightarrow> Inr (if b then r # rs' else rs')))"

fun apply_matches :: "(error + match_fcn) list \<Rightarrow> metadata list \<Rightarrow> error + metadata list" where
  \<comment> \<open>the loop over the generator: each clause is parsed, then applied, before the
      next clause is parsed\<close>
  "apply_matches [] records = Inr records"
| "apply_matches (m # ms) records =
     (case m of
        Inl e \<Rightarrow> Inl e
      | Inr f \<Rightarrow>
          (case filter_by f records of
             Inl e \<Rightarrow> Inl e
           | Inr records' \<Rightarrow> apply_matches ms records'))"

fun sort_keys :: "string \<Rightarrow> metadata list \<Rightarrow> error + pyval list" where
  \<comment> \<open>\<^verbatim>\<open>key(r)\<close> for every record, in order\<close>
  "sort_keys k [] = Inr []"
| "sort_keys k (r # rs) =
     (case getitem r k of
        Inl e \<Rightarrow> Inl e
      | Inr x \<Rightarrow> (case sort_keys k rs of Inl e \<Rightarrow> Inl e | Inr xs \<Rightarrow> Inr (x # xs)))"

fun key_lt :: "pyval \<Rightarrow> pyval \<Rightarrow> bool option" where
  \<comment> \<open>\<^verbatim>\<open>a < b\<close> on two sort keys; None where Python 3 raises TypeError\<close>
  "key_lt (PInt a) (PInt b) = Some (a < b)"
| "key_lt (PStr a) (PStr b) = Some (a < b)"
| "key_lt (PDatetime a) (PDatetime b) =
     (case dt_op OpLt a b of Inl e \<Rightarrow> None | Inr r \<Rightarrow> Some r)"
| "key_lt a b = None"

definition comparable :: "pyval list \<Rightarrow> bool" where
  "comparable ks = list_all (\<lambda>a. list_all (\<lambda>b. key_lt a b \<noteq> None) ks) ks"

fun insert_by :: "('a \<Rightarrow> 'a \<Rightarrow> bool) \<Rightarrow> 'a \<Rightarrow> 'a list \<Rightarrow> 'a list" where
  "insert_by lt x [] = [x]"
| "insert_by lt x (y # ys) = (if lt y x then y # insert_by lt x ys else x # y # ys)"

definition stable_sort_by :: "('a \<Rightarrow> 'a \<Rightarrow> bool) \<Rightarrow> 'a list \<Rightarrow> 'a list" where
  "stable_sort_by lt xs = foldr (insert_by lt) xs []"

definition sorted_py :: "string \<Rightarrow> bool \<Rightarrow> metadata list \<Rightarrow> error + metadata list" where
  \<comment> \<open>\<^verbatim>\<open>sorted(records, key=lambda r: r[k], reverse=reverse)\<close>: the keys are computed
      first; the sort is stable, and with \<open>reverse\<close> it sorts the reversed list and
      reverses the result. With two records or more, keys that \<^verbatim>\<open><\<close> cannot compare
      raise TypeError.\<close>
  "sorted_py k reverse records =
     (case sort_keys k records of
        Inl e \<Rightarrow> Inl e
      | Inr ks \<Rightarrow>
          if length ks \<le> 1 then Inr records
          else if comparable ks then
            (let lt = (\<lambda>(a, r) (b, r'). key_lt a b = Some True);
                 decorated = zip ks records
             in Inr (map snd
                  (if reverse then rev (stable_sort_by lt (rev decorated))
                   else stable_sort_by lt decorated)))
          else Inl TypeError)"

fun truthy :: "string option \<Rightarrow> bool" where
  \<comment> \<open>\<^verbatim>\<open>if search_str:\<close>, \<^verbatim>\<open>if sort_by:\<close>: neither None nor the empty string\<close>
  "truthy None = False"
| "truthy (Some s) = (s \<noteq> [])"

definition filter_stage :: "env \<Rightarrow> metadata list \<Rightarrow> string option \<Rightarrow> field_map \<Rightarrow> error + metadata list" where
  \<comment> \<open>lines 2359 to 2361 of \<^verbatim>\<open>_filter_records\<close>\<close>
  "filter_stage E records search_str fm =
     (case search_str of
        None \<Rightarrow> Inr records
      | Some s \<Rightarrow> if s = [] then Inr records else apply_matches (parse_search_str E s fm) records)"

definition sort_stage :: "metadata list \<Rightarrow> string option \<Rightarrow> bool \<Rightarrow> field_map \<Rightarrow> error + metadata list" where
  \<comment> \<open>lines 2363 to 2374 of \<^verbatim>\<open>_filter_records\<close>\<close>
  "sort_stage records sort_by ascending fm =
     (let reverse = \<not> ascending
      in case sort_by of
           None \<Rightarrow> Inr (if reverse then rev records else records)
         | Some sb \<Rightarrow>
             if sb = [] then Inr (if reverse then rev records else records)
             else
               (let sort_by_normalized = normalize_field sb
                in case sorted_py sort_by_normalized reverse records of
                     Inl (KeyError k) \<Rightarrow>
                       Inl (InvalidSortField sb sort_by_normalized (map fst fm))
                   | Inl e \<Rightarrow> Inl e
                   | Inr records' \<Rightarrow> Inr records'))"

definition limit_stage :: "metadata list \<Rightarrow> int \<Rightarrow> metadata list" where
  \<comment> \<open>lines 2376 to 2377 of \<^verbatim>\<open>_filter_records\<close>\<close>
  "limit_stage records limit = (if limit > 0 then take (nat limit) records else records)"

definition filter_records ::
  "env \<Rightarrow> metadata list \<Rightarrow> int \<Rightarrow> string option \<Rightarrow> string option \<Rightarrow> bool \<Rightarrow> field_map
     \<Rightarrow> error + metadata list" where
  "filter_records E records limit search_str sort_by ascending fm =
     (case filter_stage E records search_str fm of
        Inl e \<Rightarrow> Inl e
      | Inr records1 \<Rightarrow>
          (case sort_stage records1 sort_by ascending fm of
             Inl e \<Rightarrow> Inl e
           | Inr records2 \<Rightarrow> Inr (limit_stage records2 limit)))"

section \<open>Directory synchronisation\<close>

text \<open>
  Modelled from the spec: the planning step of \<^verbatim>\<open>syncDir\<close>. The storage clients
  (\<^verbatim>\<open>eta.core.storage\<close>, with \<^verbatim>\<open>upload_dir_sync\<close> and \<^verbatim>\<open>download_dir_sync\<close>) are not
  part of the listed source; only their callers are. The spec's section 4.5 gives the
  plan: with \<open>L\<close> the relative paths under the local root and \<open>R\<close> those under the
  remote root, the direction chooses the source side; a source file absent from the
  destination is transferred, a file on both sides is transferred only with
  \<open>overwrite\<close> and is skipped otherwise, and nothing is planned for a file that is only
  in the destination.
\<close>

datatype direction = Upload | Download

datatype action = Transfer | Skip

type_synonym sync_plan = "(string \<times> action) list"

definition sync_source :: "direction \<Rightarrow> string list \<Rightarrow> string list \<Rightarrow> string list" where
  \<comment> \<open>Modelled from the spec: upload is local to remote, download is remote to local.\<close>
  "sync_source d L R = (case d of Upload \<Rightarrow> L | Download \<Rightarrow> R)"

definition sync_dest :: "direction \<Rightarrow> string list \<Rightarrow> string list \<Rightarrow> string list" where
  \<comment> \<open>Modelled from the spec: the side that is not the source.\<close>
  "sync_dest d L R = (case d of Upload \<Rightarrow> R | Download \<Rightarrow> L)"

definition syncDir :: "direction \<Rightarrow> bool \<Rightarrow> string list \<Rightarrow> string list \<Rightarrow> sync_plan" where
  \<comment> \<open>Modelled from the spec: the plan of \<^verbatim>\<open>syncDir\<close>, one entry per source file.\<close>
  "syncDir d overwrite L R =
     map (\<lambda>p. (p, if p \<in> set (sync_dest d L R) \<and> \<not> overwrite then Skip else Transfer))
       (sync_source d L R)"

definition planned :: "action \<Rightarrow> sync_plan \<Rightarrow> string list" where
  \<comment> \<open>the paths a plan gives the action \<open>a\<close>\<close>
  "planned a plan = map fst (filter (\<lambda>(p, a'). a' = a) plan)"

section \<open>Predicates used to state the properties\<close>

fun has_unescaped :: "string \<Rightarrow> bool \<Rightarrow> string \<Rightarrow> bool" where
  \<comment> \<open>some character of \<open>chars\<close> occurs in the text without a backslash right before
      it; \<open>esc\<close> says whether a backslash stands right before the text\<close>
  "has_unescaped chars esc [] = False"
| "has_unescaped chars esc (c # cs) =
     ((c \<in> set chars \<and> \<not> esc) \<or> has_unescaped chars (c = backslash) cs)"

fun delims_ok :: "string \<Rightarrow> string list \<Rightarrow> bool" where
  \<comment> \<open>in the alternating list text, delimiter, text, ..., every delimiter is a
      non-empty run of characters of \<open>chars\<close> and the text before it does not end with
      a backslash\<close>
  "delims_ok chars (t # d # rest) =
     (d \<noteq> [] \<and> set d \<subseteq> set chars \<and> (t = [] \<or> last t \<noteq> backslash) \<and> delims_ok chars rest)"
| "delims_ok chars ts = True"

fun texts_ok :: "string \<Rightarrow> string list \<Rightarrow> bool" where
  \<comment> \<open>in the alternating list, no text holds an unescaped character of \<open>chars\<close>\<close>
  "texts_ok chars [] = True"
| "texts_ok chars [t] = (\<not> has_unescaped chars False t)"
| "texts_ok chars (t # d # rest) = (\<not> has_unescaped chars False t \<and> texts_ok chars rest)"

definition drop_escaping_backslashes :: "string \<Rightarrow> string \<Rightarrow> string" where
  \<comment> \<open>the text without the backslashes that stand right before a character of
      \<open>chars\<close>; every other character is kept\<close>
  "drop_escaping_backslashes chars s =
     map fst
       (filter (\<lambda>(c, nxt). \<not> (c = backslash \<and> (case nxt of None \<Rightarrow> False | Some d \<Rightarrow> d \<in> set chars)))
          (zip s (map Some (tl s) @ [None])))"

definition field_predicate :: "searcher \<Rightarrow> (pyval \<Rightarrow> error + bool) \<Rightarrow> match_fcn" where
  \<comment> \<open>the predicate that reads \<^verbatim>\<open>record[searcher.name]\<close> and applies a test to it\<close>
  "field_predicate sr test =
     (\<lambda>md. case getitem md (searcher_name sr) of Inl e \<Rightarrow> Inl e | Inr x \<Rightarrow> test x)"

fun instant_of :: "env \<Rightarrow> datetime \<Rightarrow> int" where
  \<comment> \<open>the UTC instant a datetime stands for: an aware one by its own offset, a naive
      one by the offset of the system's local time\<close>
  "instant_of E (Aware w off tz) = w - off"
| "instant_of E (Naive w) = w - system_utcoffset E w"

fun join_commas :: "string list \<Rightarrow> string" where
  \<comment> \<open>the clauses written one after the other with a comma between them\<close>
  "join_commas [] = []"
| "join_commas [t] = t"
| "join_commas (t # t' # ts) = t @ '','' @ join_commas (t' # ts)"

section \<open>An environment and records for the examples\<close>

definition T_env :: env where
  \<comment> \<open>stand-ins for the external functions, used only to run the engine on examples\<close>
  "T_env = \<lparr> from_human_bytes_str = (\<lambda>s. if s = ''20MB'' then Inr 20971520 else Inl (ValueError s)),
             to_human_bytes_str = (\<lambda>n. str_of_int n @ '' B''),
             isoparse = (\<lambda>s. if s = ''2020-01-01'' then Inr (Naive 1577836800) else Inl (ValueError s)),
             localzone_utcoffset = (\<lambda>u. - 18000),
             localzone_tzinfo = (\<lambda>u. 0),
             system_utcoffset = (\<lambda>w. - 18000),
             strftime = (\<lambda>d. ''2019-12-31 23:00:00 EST''),
             datetime_str = (\<lambda>d. ''2019-12-31 23:00:00-05:00'') \<rparr>"

definition s3_record :: "string \<Rightarrow> pyval \<Rightarrow> metadata" where
  \<comment> \<open>a record of an S3 listing\<close>
  "s3_record nm sz =
     [(''bucket'', PStr ''b''), (''object_name'', PStr nm), (''size'', sz),
      (''mime_type'', PStr ''text/plain''),
      (''last_modified'', PDatetime (Aware 1577833200 (- 18000) 1))]"

section \<open>Splitting and escapes: properties\<close>

lemma re_split_aux_concat:
  "concat (re_split_aux chars m n esc cur s) = cur @ s"
proof (induction chars m n esc cur s rule: re_split_aux.induct)
  case (1 chars maxsplit n esc cur)
  show ?case by simp
next
  case (2 chars maxsplit n esc cur c cs)
  show ?case
  proof (cases "c \<in> set chars \<and> \<not> esc \<and> \<not> (maxsplit \<noteq> 0 \<and> maxsplit \<le> n)")
    case True
    have "takeWhile (\<lambda>x. x \<in> set chars) (c # cs) @ dropWhile (\<lambda>x. x \<in> set chars) (c # cs) = c # cs"
      by (rule takeWhile_dropWhile_id)
    with True 2(1) show ?thesis
      by (simp del: takeWhile.simps dropWhile.simps takeWhile_dropWhile_id)
  next
    case False
    with 2(2) show ?thesis by auto
  qed
qed

lemma re_split_aux_delims_ok:
  "backslash \<notin> set chars \<Longrightarrow> (esc \<longleftrightarrow> cur \<noteq> [] \<and> last cur = backslash)
    \<Longrightarrow> delims_ok chars (re_split_aux chars m n esc cur s)"
proof (induction chars m n esc cur s rule: re_split_aux.induct)
  case (1 chars maxsplit n esc cur)
  show ?case by simp
next
  case (2 chars maxsplit n esc cur c cs)
  let ?run = "takeWhile (\<lambda>x. x \<in> set chars) (c # cs)"
  show ?case
  proof (cases "c \<in> set chars \<and> \<not> esc \<and> \<not> (maxsplit \<noteq> 0 \<and> maxsplit \<le> n)")
    case True
    then have ne: "?run \<noteq> []" by simp
    have sub: "set ?run \<subseteq> set chars"
      using set_takeWhileD by fastforce
    have "last ?run \<in> set chars"
      using ne sub last_in_set by blast
    with 2(3) have nb: "last ?run \<noteq> backslash" by auto
    have ih: "delims_ok chars (re_split_aux chars maxsplit (Suc n) (last ?run = backslash) []
        (dropWhile (\<lambda>x. x \<in> set chars) (c # cs)))"
      using 2(1)[OF True 2(3)] nb by simp
    have "cur = [] \<or> last cur \<noteq> backslash"
      using True 2(4) by auto
    with True ne sub ih show ?thesis
      by (simp del: takeWhile.simps dropWhile.simps)
  next
    case False
    have "delims_ok chars (re_split_aux chars maxsplit n (c = backslash) (cur @ [c]) cs)"
      using 2(2)[OF False 2(3)] by simp
    with False show ?thesis by auto
  qed
qed

lemma re_split_aux_no_unescaped:
  "\<not> has_unescaped chars esc s \<Longrightarrow> re_split_aux chars m n esc cur s = [cur @ s]"
  by (induction s arbitrary: esc cur) auto

lemma has_unescaped_append:
  "has_unescaped chars esc (xs @ ys) \<longleftrightarrow>
     has_unescaped chars esc xs \<or> has_unescaped chars (if xs = [] then esc else last xs = backslash) ys"
  by (induction xs arbitrary: esc) auto

lemma re_split_aux_texts_ok:
  "backslash \<notin> set chars \<Longrightarrow> (esc \<longleftrightarrow> cur \<noteq> [] \<and> last cur = backslash)
    \<Longrightarrow> \<not> has_unescaped chars False cur
    \<Longrightarrow> texts_ok chars (re_split_aux chars 0 n esc cur s)"
proof (induction chars "0::nat" n esc cur s rule: re_split_aux.induct)
  case (1 chars n esc cur)
  then show ?case by simp
next
  case (2 chars n esc cur c cs)
  let ?run = "takeWhile (\<lambda>x. x \<in> set chars) (c # cs)"
  show ?case
  proof (cases "c \<in> set chars \<and> \<not> esc")
    case True
    then have ne: "?run \<noteq> []" by simp
    have sub: "set ?run \<subseteq> set chars"
      using set_takeWhileD by fastforce
    have "last ?run \<in> set chars"
      using ne sub last_in_set by blast
    with 2(3) have nb: "last ?run \<noteq> backslash" by auto
    have ih: "texts_ok chars (re_split_aux chars 0 (Suc n) (last ?run = backslash) []
        (dropWhile (\<lambda>x. x \<in> set chars) (c # cs)))"
      using 2(1)[OF _ 2(3)] True nb by simp
    with True 2(5) show ?thesis
      by (simp del: takeWhile.simps dropWhile.simps)
  next
    case False
    have "\<not> has_unescaped chars False (cur @ [c])"
      using False 2(4,5) by (auto simp: has_unescaped_append)
    then have "texts_ok chars (re_split_aux chars 0 n (c = backslash) (cur @ [c]) cs)"
      using 2(2)[OF _ 2(3)] False by simp
    with False show ?thesis by auto
  qed
qed

lemma remove_escapes_spec:
  "backslash \<notin> set chars \<Longrightarrow> remove_escapes s chars = drop_escaping_backslashes chars s"
proof (induction s chars rule: remove_escapes.induct)
  case (1 chars)
  show ?case by (simp add: drop_escaping_backslashes_def)
next
  case (2 b chars)
  show ?case by (simp add: drop_escaping_backslashes_def)
next
  case (3 b c rest chars)
  show ?case
  proof (cases "b = backslash \<and> c \<in> set chars")
    case True
    with 3(3) have "c \<noteq> backslash" by auto
    with True 3(1)[OF True 3(3)] show ?thesis
      by (cases rest) (auto simp: drop_escaping_backslashes_def)
  next
    case False
    with 3(2)[OF False 3(3)] show ?thesis
      by (auto simp: drop_escaping_backslashes_def)
  qed
qed

lemma split_on_chars_no_unescaped:
  "\<not> has_unescaped chars False s \<Longrightarrow> split_on_chars s chars m keep = [s]"
  by (simp add: split_on_chars_def re_split_def re_split_aux_no_unescaped Let_def)

lemma backslash_not_special: "backslash \<notin> set special_chars"
  by (simp add: backslash_def special_chars_def)

text \<open>
  Claim C4. A character of \<open>, : = < >\<close> that is preceded by a backslash never belongs to
  a delimiter: the chunks of a split concatenate to the input, every delimiter is a
  non-empty run of special characters that is not preceded by a backslash, and (with no
  bound on the splits) no text chunk holds an unescaped special character; a string
  whose special characters are all escaped is not split at all, so a query whose commas
  are all escaped is one clause. \<^verbatim>\<open>_remove_escapes\<close> removes exactly the backslashes
  that stand right before a special character. The query \<^verbatim>\<open>a\,b\<close> is one clause, a
  bare literal, whose value is \<^verbatim>\<open>a,b\<close>.
\<close>

theorem C4_escaped_delimiters:
  assumes "backslash \<notin> set chars"
  shows "concat (split_on_chars s chars m True) = s
     \<and> delims_ok chars (split_on_chars s chars m True)
     \<and> texts_ok chars (split_on_chars s chars None True)
     \<and> (\<not> has_unescaped chars False s \<longrightarrow> split_on_chars s chars m keep = [s])
     \<and> remove_escapes s chars = drop_escaping_backslashes chars s
     \<and> (\<not> has_unescaped '','' False q \<longrightarrow> parse_search_str E q fm = [parse_clause E fm q q])
     \<and> parse_search_str E (''a'' @ [backslash] @ '',b'') fm
         = [Inr (any_match_fcn E (searcher_map fm) ''a,b'')]"
proof -
  have 1: "concat (split_on_chars s chars m True) = s"
    by (simp add: split_on_chars_def re_split_def re_split_aux_concat)
  have 2: "delims_ok chars (split_on_chars s chars m True)"
    using assms by (simp add: split_on_chars_def re_split_def re_split_aux_delims_ok)
  have 3: "texts_ok chars (split_on_chars s chars None True)"
    using assms by (simp add: split_on_chars_def re_split_def re_split_aux_texts_ok)
  have 4: "\<not> has_unescaped chars False s \<longrightarrow> split_on_chars s chars m keep = [s]"
    by (simp add: split_on_chars_no_unescaped)
  have 5: "remove_escapes s chars = drop_escaping_backslashes chars s"
    using assms by (rule remove_escapes_spec)
  have 6: "\<not> has_unescaped '','' False q \<longrightarrow> parse_search_str E q fm = [parse_clause E fm q q]" for q
    by (simp add: parse_search_str_def split_on_chars_no_unescaped)
  have nu: "\<not> has_unescaped '','' False (''a'' @ [backslash] @ '',b'')"
    by (simp add: backslash_def)
  have nu2: "\<not> has_unescaped '':=<>'' False (''a'' @ [backslash] @ '',b'')"
    by (simp add: backslash_def)
  have re: "strip (remove_escapes (''a'' @ [backslash] @ '',b'') special_chars) = ''a,b''"
    by (simp add: backslash_def special_chars_def strip_def is_space_def)
  have 7: "parse_search_str E (''a'' @ [backslash] @ '',b'') fm
         = [Inr (any_match_fcn E (searcher_map fm) ''a,b'')]"
  proof -
    have "parse_search_str E (''a'' @ [backslash] @ '',b'') fm
        = [parse_clause E fm (''a'' @ [backslash] @ '',b'') (''a'' @ [backslash] @ '',b'')]"
      using 6 [of "''a'' @ [backslash] @ '',b''"] nu by simp
    moreover have "split_on_chars (''a'' @ [backslash] @ '',b'') '':=<>'' (Some 1) True
        = [''a'' @ [backslash] @ '',b'']"
      using nu2 by (rule split_on_chars_no_unescaped)
    ultimately show ?thesis
      using re by (simp add: parse_clause_def make_any_match_fcn_def)
  qed
  from 1 2 3 4 5 6 7 show ?thesis by blast
qed

text \<open>The theorem at the comma and the query \<^verbatim>\<open>x\,y,z\<close>.\<close>

theorem C4_escaped_delimiters_witness:
  "backslash \<notin> set '','' \<and>
   split_on_chars (''x'' @ [backslash] @ '',y,z'') '','' None True
     = [''x'' @ [backslash] @ '',y'', '','', ''z''] \<and>
   delims_ok '','' (split_on_chars (''x'' @ [backslash] @ '',y,z'') '','' None True) \<and>
   \<not> has_unescaped '','' False (''x'' @ [backslash] @ '',y'') \<and>
   split_on_chars (''x'' @ [backslash] @ '',y'') '','' None False = [''x'' @ [backslash] @ '',y''] \<and>
   remove_escapes (''x'' @ [backslash] @ '',y'') '','' = ''x,y''"
proof -
  have h: "backslash \<notin> set '',''" by (simp add: backslash_def)
  have e: "split_on_chars (''x'' @ [backslash] @ '',y,z'') '','' None True
     = [''x'' @ [backslash] @ '',y'', '','', ''z'']"
    by (simp add: split_on_chars_def re_split_def backslash_def)
  have n: "\<not> has_unescaped '','' False (''x'' @ [backslash] @ '',y'')"
    by (simp add: backslash_def)
  have d: "drop_escaping_backslashes '','' (''x'' @ [backslash] @ '',y'') = ''x,y''"
    by (simp add: drop_escaping_backslashes_def backslash_def)
  from C4_escaped_delimiters [OF h, of "''x'' @ [backslash] @ '',y,z''" None]
  have a: "delims_ok '','' (split_on_chars (''x'' @ [backslash] @ '',y,z'') '','' None True)"
    by blast
  from C4_escaped_delimiters [OF h, of "''x'' @ [backslash] @ '',y''" None False] n
  have b: "split_on_chars (''x'' @ [backslash] @ '',y'') '','' None False = [''x'' @ [backslash] @ '',y'']"
    and c: "remove_escapes (''x'' @ [backslash] @ '',y'') '','' = drop_escaping_backslashes '','' (''x'' @ [backslash] @ '',y'')"
    by blast+
  from h e a n b c d show ?thesis by simp
qed

section \<open>The pipeline: order and limit\<close>

text \<open>
  Claim C6. When no \<^verbatim>\<open>sort_by\<close> is given (None or the empty string), the pipeline
  returns the filtered records in reversed listing order if \<^verbatim>\<open>ascending\<close> is false and
  in their listing order if it is true, before the limit is applied; with a limit that
  is zero or negative these are the results themselves. With no search string the
  filtered records are the records.
\<close>

theorem C6_no_sort_by:
  assumes "filter_stage E records search_str fm = Inr filtered"
      and "\<not> truthy sort_by"
  shows "filter_records E records limit search_str sort_by ascending fm
           = Inr (limit_stage (if ascending then filtered else rev filtered) limit)
       \<and> (limit \<le> 0 \<longrightarrow>
            filter_records E records limit search_str sort_by False fm = Inr (rev filtered) \<and>
            filter_records E records limit search_str sort_by True fm = Inr filtered)
       \<and> filter_stage E records None fm = Inr records"
proof -
  have s: "sort_stage filtered sort_by asc fm = Inr (if asc then filtered else rev filtered)" for asc
    using assms(2) by (cases sort_by) (auto simp: sort_stage_def)
  show ?thesis
    using assms(1) s by (simp add: filter_records_def limit_stage_def filter_stage_def)
qed

text \<open>The theorem on two records of an S3 listing, with no search and no limit.\<close>

theorem C6_no_sort_by_witness:
  "filter_stage T_env [s3_record ''a'' (PInt 1), s3_record ''b'' (PInt 2)] None S3_SEARCH_FIELDS_MAP
      = Inr [s3_record ''a'' (PInt 1), s3_record ''b'' (PInt 2)]
   \<and> \<not> truthy None
   \<and> filter_records T_env [s3_record ''a'' (PInt 1), s3_record ''b'' (PInt 2)] (-1) None None False S3_SEARCH_FIELDS_MAP
      = Inr [s3_record ''b'' (PInt 2), s3_record ''a'' (PInt 1)]
   \<and> filter_records T_env [s3_record ''a'' (PInt 1), s3_record ''b'' (PInt 2)] (-1) None None True S3_SEARCH_FIELDS_MAP
      = Inr [s3_record ''a'' (PInt 1), s3_record ''b'' (PInt 2)]"
proof -
  have a: "filter_stage T_env [s3_record ''a'' (PInt 1), s3_record ''b'' (PInt 2)] None S3_SEARCH_FIELDS_MAP
      = Inr [s3_record ''a'' (PInt 1), s3_record ''b'' (PInt 2)]"
    by (simp add: filter_stage_def)
  have b: "\<not> truthy None" by simp
  from C6_no_sort_by [OF a b, of "-1"] a b show ?thesis by (simp add: limit_stage_def)
qed

text \<open>
  Claim C7. The limit is applied last, to the filtered and sorted sequence: a positive
  limit returns exactly its first \<^verbatim>\<open>limit\<close> records, and a limit that is zero or
  negative returns the whole sequence.
\<close>

theorem C7_limit:
  assumes "filter_stage E records search_str fm = Inr filtered"
      and "sort_stage filtered sort_by ascending fm = Inr ordered"
  shows "filter_records E records limit search_str sort_by ascending fm
           = Inr (if limit > 0 then take (nat limit) ordered else ordered)
       \<and> (limit \<le> 0 \<longrightarrow> filter_records E records limit search_str sort_by ascending fm = Inr ordered)
       \<and> (limit > 0 \<longrightarrow> (\<exists>out. filter_records E records limit search_str sort_by ascending fm = Inr out
              \<and> out = take (nat limit) ordered \<and> int (length out) = min limit (int (length ordered))))"
  using assms by (auto simp: filter_records_def limit_stage_def)

text \<open>The theorem on three records with the limits 2, 0 and -1.\<close>

theorem C7_limit_witness:
  "filter_stage T_env [s3_record ''a'' (PInt 1), s3_record ''b'' (PInt 2), s3_record ''c'' (PInt 3)] None S3_SEARCH_FIELDS_MAP
      = Inr [s3_record ''a'' (PInt 1), s3_record ''b'' (PInt 2), s3_record ''c'' (PInt 3)]
   \<and> sort_stage [s3_record ''a'' (PInt 1), s3_record ''b'' (PInt 2), s3_record ''c'' (PInt 3)] None False S3_SEARCH_FIELDS_MAP
      = Inr [s3_record ''c'' (PInt 3), s3_record ''b'' (PInt 2), s3_record ''a'' (PInt 1)]
   \<and> filter_records T_env [s3_record ''a'' (PInt 1), s3_record ''b'' (PInt 2), s3_record ''c'' (PInt 3)] 2 None None False S3_SEARCH_FIELDS_MAP
      = Inr [s3_record ''c'' (PInt 3), s3_record ''b'' (PInt 2)]
   \<and> filter_records T_env [s3_record ''a'' (PInt 1), s3_record ''b'' (PInt 2), s3_record ''c'' (PInt 3)] 0 None None False S3_SEARCH_FIELDS_MAP
      = Inr [s3_record ''c'' (PInt 3), s3_record ''b'' (PInt 2), s3_record ''a'' (PInt 1)]
   \<and> filter_records T_env [s3_record ''a'' (PInt 1), s3_record ''b'' (PInt 2), s3_record ''c'' (PInt 3)] (-1) None None False S3_SEARCH_FIELDS_MAP
      = Inr [s3_record ''c'' (PInt 3), s3_record ''b'' (PInt 2), s3_record ''a'' (PInt 1)]"
proof -
  have a: "filter_stage T_env [s3_record ''a'' (PInt 1), s3_record ''b'' (PInt 2), s3_record ''c'' (PInt 3)] None S3_SEARCH_FIELDS_MAP
      = Inr [s3_record ''a'' (PInt 1), s3_record ''b'' (PInt 2), s3_record ''c'' (PInt 3)]"
    by (simp add: filter_stage_def)
  have b: "sort_stage [s3_record ''a'' (PInt 1), s3_record ''b'' (PInt 2), s3_record ''c'' (PInt 3)] None False S3_SEARCH_FIELDS_MAP
      = Inr [s3_record ''c'' (PInt 3), s3_record ''b'' (PInt 2), s3_record ''a'' (PInt 1)]"
    by (simp add: sort_stage_def)
  from C7_limit [OF a b, of 2] C7_limit [OF a b, of 0] C7_limit [OF a b, of "-1"] a b
  show ?thesis by simp
qed

section \<open>Searchers: properties\<close>

lemma starts_with_iff: "starts_with u s \<longleftrightarrow> (\<exists>q. s = u @ q)"
  by (induction u s rule: starts_with.induct) auto

lemma str_in_iff: "str_in u s \<longleftrightarrow> (\<exists>p q. s = p @ u @ q)"
proof (induction s)
  case Nil
  show ?case by auto
next
  case (Cons c cs)
  show ?case
  proof
    assume "str_in u (c # cs)"
    then consider "starts_with u (c # cs)" | "str_in u cs" by auto
    then show "\<exists>p q. c # cs = p @ u @ q"
    proof cases
      case 1
      then obtain q where "c # cs = u @ q" by (auto simp: starts_with_iff)
      then have "c # cs = [] @ u @ q" by simp
      then show ?thesis by blast
    next
      case 2
      with Cons obtain p q where "cs = p @ u @ q" by blast
      then have "c # cs = (c # p) @ u @ q" by simp
      then show ?thesis by blast
    qed
  next
    assume "\<exists>p q. c # cs = p @ u @ q"
    then obtain p q where pq: "c # cs = p @ u @ q" by blast
    show "str_in u (c # cs)"
    proof (cases p)
      case Nil
      with pq have "starts_with u (c # cs)" by (auto simp: starts_with_iff)
      then show ?thesis by simp
    next
      case (Cons a p')
      with pq have "cs = p' @ u @ q" by simp
      with Cons.IH have "str_in u cs" by blast
      then show ?thesis by simp
    qed
  qed
qed

lemma str_in_dash: "str_in u ''-'' \<longleftrightarrow> u = [] \<or> u = ''-''"
proof (cases u)
  case Nil
  then show ?thesis by simp
next
  case (Cons a w)
  then show ?thesis by (cases w) auto
qed

text \<open>
  Claim C10. For a record whose size is None or negative, \<^verbatim>\<open>_render_bytes\<close> gives the
  string \<^verbatim>\<open>-\<close>, so the contains operation of a byte-size field holds exactly when the
  search string is a substring of \<^verbatim>\<open>-\<close> (the empty string or \<^verbatim>\<open>-\<close> itself); this is
  what a contains clause on that field and a bare literal matched against that field
  evaluate.
\<close>

theorem C10_size_absent_or_negative:
  assumes "x = PNone \<or> (\<exists>n. x = PInt n \<and> n < 0)"
  shows "render_bytes E x = Inr ''-''
     \<and> contains E (BytesSearcher nm) usr x = Inr (str_in usr ''-'')
     \<and> (str_in usr ''-'' \<longleftrightarrow> (\<exists>p q. ''-'' = p @ usr @ q))
     \<and> (str_in usr ''-'' \<longleftrightarrow> usr = [] \<or> usr = ''-'')
     \<and> (map_of fm (normalize_field key) = Some (BytesSearcher nm) \<and> getitem record nm = Inr x
          \<longrightarrow> (\<exists>f. make_match_fcn E key v '':'' fm q = Inr f
                 \<and> f record = Inr (str_in (strip (remove_escapes v special_chars)) ''-'')))
     \<and> (sm nm = Some (BytesSearcher nm')
          \<longrightarrow> any_match_fcn E sm usr [(nm, x)] = Inr (str_in usr ''-''))"
proof -
  have r: "render_bytes E x = Inr ''-''"
    using assms by auto
  then have c: "contains E (BytesSearcher nm'') u x = Inr (str_in u ''-'')" for nm'' u
    by simp
  have m: "map_of fm (normalize_field key) = Some (BytesSearcher nm) \<and> getitem record nm = Inr x
          \<longrightarrow> (\<exists>f. make_match_fcn E key v '':'' fm q = Inr f
                 \<and> f record = Inr (str_in (strip (remove_escapes v special_chars)) ''-''))"
    using c by (simp add: make_match_fcn_def)
  have a: "sm nm = Some (BytesSearcher nm')
          \<longrightarrow> any_match_fcn E sm usr [(nm, x)] = Inr (str_in usr ''-'')"
    using c by simp
  from r c m a show ?thesis
    using str_in_iff [of usr "''-''"] str_in_dash [of usr] by blast
qed

text \<open>The theorem at the clause \<^verbatim>\<open>size:-\<close> and an S3 record with no size.\<close>

theorem C10_size_absent_or_negative_witness:
  "contains T_env (BytesSearcher ''size'') ''-'' PNone = Inr True
   \<and> contains T_env (BytesSearcher ''size'') ''1'' (PInt (- 1)) = Inr False
   \<and> map_of S3_SEARCH_FIELDS_MAP (normalize_field ''size'') = Some (BytesSearcher ''size'')
   \<and> getitem (s3_record ''a'' PNone) ''size'' = Inr PNone
   \<and> (\<exists>f. make_match_fcn T_env ''size'' ''-'' '':'' S3_SEARCH_FIELDS_MAP ''size:-'' = Inr f
          \<and> f (s3_record ''a'' PNone) = Inr True)"
proof -
  have k: "map_of S3_SEARCH_FIELDS_MAP (normalize_field ''size'') = Some (BytesSearcher ''size'')"
    by (simp add: S3_SEARCH_FIELDS_MAP_def normalize_field_def replace_space_def strip_def
        lower_def lower_char_def upper_letters_def lower_letters_def is_space_def)
  have g: "getitem (s3_record ''a'' PNone) ''size'' = Inr PNone"
    by (simp add: getitem_def s3_record_def)
  have v: "strip (remove_escapes ''-'' special_chars) = ''-''"
    by (simp add: strip_def is_space_def)
  have "PNone = PNone \<or> (\<exists>n. PNone = PInt n \<and> n < 0)" by simp
  from C10_size_absent_or_negative [OF this, of T_env "''size''" "''-''" S3_SEARCH_FIELDS_MAP
      "''size''" "s3_record ''a'' PNone" "''-''" "''size:-''"] k g v
  have 1: "contains T_env (BytesSearcher ''size'') ''-'' PNone = Inr True"
    and 2: "\<exists>f. make_match_fcn T_env ''size'' ''-'' '':'' S3_SEARCH_FIELDS_MAP ''size:-'' = Inr f
          \<and> f (s3_record ''a'' PNone) = Inr True"
    by simp_all
  have "PInt (- 1) = PNone \<or> (\<exists>n. PInt (- 1) = PInt n \<and> n < 0)" by simp
  from C10_size_absent_or_negative [OF this, of T_env "''size''" "''1''"]
  have 3: "contains T_env (BytesSearcher ''size'') ''1'' (PInt (- 1)) = Inr False"
    by simp
  from 1 2 3 k g show ?thesis by blast
qed

section \<open>The filter stage: properties\<close>

lemma filter_by_Inr:
  "filter_by f rs = Inr out \<Longrightarrow> out = filter (\<lambda>r. f r = Inr True) rs"
proof (induction rs arbitrary: out)
  case Nil
  then show ?case by simp
next
  case (Cons r rs)
  then show ?case
    by (cases "f r"; cases "filter_by f rs") (auto split: if_splits)
qed

lemma filter_by_total:
  "\<forall>r \<in> set rs. \<exists>b. f r = Inr b \<Longrightarrow> \<exists>out. filter_by f rs = Inr out"
  by (induction rs) auto

lemma apply_matches_Inr:
  "apply_matches ms rs = Inr out \<Longrightarrow>
     (\<forall>m \<in> set ms. \<exists>f. m = Inr f) \<and>
     out = filter (\<lambda>r. \<forall>m \<in> set ms. \<exists>f. m = Inr f \<and> f r = Inr True) rs"
proof (induction ms arbitrary: rs)
  case Nil
  then show ?case by simp
next
  case (Cons m ms)
  from Cons.prems obtain f where m: "m = Inr f"
    by (cases m) auto
  with Cons.prems obtain rs' where f: "filter_by f rs = Inr rs'"
    by (cases "filter_by f rs") auto
  with Cons.prems m have rest: "apply_matches ms rs' = Inr out" by simp
  from filter_by_Inr [OF f] have rs': "rs' = filter (\<lambda>r. f r = Inr True) rs" .
  from Cons.IH [OF rest] have all: "\<forall>m \<in> set ms. \<exists>f. m = Inr f"
    and out: "out = filter (\<lambda>r. \<forall>m \<in> set ms. \<exists>f. m = Inr f \<and> f r = Inr True) rs'"
    by blast+
  have "out = filter (\<lambda>r. \<forall>m \<in> set (m # ms). \<exists>f. m = Inr f \<and> f r = Inr True) rs"
    unfolding out rs' filter_filter using m
    by (intro filter_cong) auto
  with all m show ?case by simp
qed

lemma filter_by_subset: "filter_by f rs = Inr out \<Longrightarrow> set out \<subseteq> set rs"
  using filter_by_Inr [of f rs out] by auto

lemma apply_matches_total:
  "\<forall>m \<in> set ms. \<exists>f. m = Inr f \<and> (\<forall>r \<in> set rs. \<exists>b. f r = Inr b) \<Longrightarrow>
     \<exists>out. apply_matches ms rs = Inr out"
proof (induction ms arbitrary: rs)
  case Nil
  show ?case by simp
next
  case (Cons m ms)
  then obtain f where m: "m = Inr f" and t: "\<forall>r \<in> set rs. \<exists>b. f r = Inr b" by auto
  then obtain rs' where f: "filter_by f rs = Inr rs'"
    using filter_by_total [of rs f] by blast
  then have "set rs' \<subseteq> set rs" by (rule filter_by_subset)
  with Cons.prems have "\<forall>m \<in> set ms. \<exists>f. m = Inr f \<and> (\<forall>r \<in> set rs'. \<exists>b. f r = Inr b)"
    by (meson list.set_intros(2) subsetD)
  from Cons.IH [OF this] m f show ?case by simp
qed

lemma apply_matches_append:
  "apply_matches (xs @ ys) rs =
     (case apply_matches xs rs of Inl e \<Rightarrow> Inl e | Inr rs' \<Rightarrow> apply_matches ys rs')"
  by (induction xs arbitrary: rs) (auto split: sum.splits)

lemma apply_matches_Inl:
  "Inl e \<in> set ms \<Longrightarrow> \<exists>e'. apply_matches ms rs = Inl e'"
  using apply_matches_Inr [of ms rs] by (cases "apply_matches ms rs") auto

lemma any_match_fcn_Inr:
  "any_match_fcn E sm v md = Inr b \<Longrightarrow>
     b = (\<exists>(nm, x) \<in> set md. \<exists>sr. sm nm = Some sr \<and> contains E sr v x = Inr True)"
proof (induction md)
  case Nil
  then show ?case by simp
next
  case (Cons p md)
  obtain nm x where p: "p = (nm, x)" by (cases p)
  show ?case
  proof (cases "sm nm")
    case None
    with Cons p show ?thesis by simp
  next
    case (Some sr)
    with Cons p show ?thesis
      by (cases "contains E sr v x") (auto split: if_splits)
  qed
qed

lemma split_on_chars_empty: "split_on_chars [] chars m keep = [[]]"
  by (simp add: split_on_chars_def re_split_def Let_def)


section \<open>Typed clauses: properties\<close>

lemma re_split_aux_skip:
  "\<not> has_unescaped chars esc key \<Longrightarrow>
     re_split_aux chars m n esc cur (key @ rest)
       = re_split_aux chars m n (if key = [] then esc else last key = backslash) (cur @ key) rest"
  by (induction key arbitrary: esc cur) auto

lemma re_split_aux_done:
  "m \<noteq> 0 \<Longrightarrow> m \<le> n \<Longrightarrow> re_split_aux chars m n esc cur s = [cur @ s]"
  by (induction s arbitrary: esc cur) auto

lemma has_unescaped_mono:
  "has_unescaped chars' esc s \<Longrightarrow> set chars' \<subseteq> set chars \<Longrightarrow> has_unescaped chars esc s"
  by (induction s arbitrary: esc) auto

lemma has_unescaped_disjoint:
  "set s \<inter> set chars = {} \<Longrightarrow> \<not> has_unescaped chars esc s"
  by (induction s arbitrary: esc) auto

lemma split_field_clause:
  assumes key: "\<not> has_unescaped chars False key" "key = [] \<or> last key \<noteq> backslash"
      and d: "d \<noteq> []" "set d \<subseteq> set chars"
      and v: "v = [] \<or> hd v \<notin> set chars"
  shows "split_on_chars (key @ d @ v) chars (Some 1) True = [key, d, v]"
proof -
  let ?P = "\<lambda>x. x \<in> set chars"
  from d obtain c d' where dc: "d = c # d'" by (cases d) auto
  have tw: "takeWhile ?P (d @ v) = d"
  proof -
    have "takeWhile ?P v = []"
      using v by (cases v) auto
    moreover have "\<forall>x \<in> set d. ?P x" using d(2) by auto
    ultimately show ?thesis by (simp add: takeWhile_append2)
  qed
  have dw: "dropWhile ?P (d @ v) = v"
  proof -
    have "dropWhile ?P v = v"
      using v by (cases v) auto
    moreover have "\<forall>x \<in> set d. ?P x" using d(2) by auto
    ultimately show ?thesis by (simp add: dropWhile_append2)
  qed
  have "re_split_aux chars 1 0 False [] (key @ d @ v) = re_split_aux chars 1 0 False key (d @ v)"
    using re_split_aux_skip [OF key(1), of 1 0 "[]" "d @ v"] key(2) by auto
  also have "\<dots> = key # takeWhile ?P (d @ v) #
      re_split_aux chars 1 1 (last (takeWhile ?P (d @ v)) = backslash) [] (dropWhile ?P (d @ v))"
    using d(2) unfolding dc by (simp del: takeWhile.simps dropWhile.simps)
  also have "\<dots> = [key, d, v]"
    unfolding tw dw by (simp add: re_split_aux_done)
  finally show ?thesis
    by (simp add: split_on_chars_def re_split_def)
qed

lemma parse_field_clause:
  assumes key: "\<not> has_unescaped '',:=<>'' False key" "key = [] \<or> last key \<noteq> backslash"
      and d: "d \<noteq> []" "set d \<subseteq> set '':=<>''"
      and v: "v = [] \<or> hd v \<notin> set '':=<>''" "\<not> has_unescaped '','' False v"
  shows "parse_search_str E (key @ d @ v) fm = [make_match_fcn E key v d fm (key @ d @ v)]"
proof -
  have k1: "\<not> has_unescaped '','' False key"
    using key(1) has_unescaped_mono [of "'',''" False key "'',:=<>''"] by auto
  have k2: "\<not> has_unescaped '':=<>'' False key"
    using key(1) has_unescaped_mono [of "'':=<>''" False key "'',:=<>''"] by auto
  have dd: "\<not> has_unescaped '','' esc d" for esc
    using d(2) by (intro has_unescaped_disjoint) auto
  have ld: "last d \<noteq> backslash"
  proof -
    have "last d \<in> set d" using d(1) by (rule last_in_set)
    with d(2) have "last d \<in> set '':=<>''" by blast
    then show ?thesis by (auto simp: backslash_def)
  qed
  have "\<not> has_unescaped '','' False (key @ d @ v)"
    using k1 dd v(2) d(1) ld by (simp add: has_unescaped_append)
  then have "parse_search_str E (key @ d @ v) fm = [parse_clause E fm (key @ d @ v) (key @ d @ v)]"
    by (simp add: parse_search_str_def split_on_chars_no_unescaped)
  moreover have "split_on_chars (key @ d @ v) '':=<>'' (Some 1) True = [key, d, v]"
    using k2 key(2) d v(1) by (rule split_field_clause)
  ultimately show ?thesis
    by (simp add: parse_clause_def)
qed


lemma make_match_fcn_contains:
  "map_of fm (normalize_field key) = Some sr \<Longrightarrow>
   make_match_fcn E key v '':'' fm q
     = Inr (field_predicate sr (\<lambda>x. contains E sr (strip (remove_escapes v special_chars)) x))"
  by (simp add: make_match_fcn_def field_predicate_def)

lemma make_match_fcn_compare:
  "map_of fm (normalize_field key) = Some sr \<Longrightarrow> d \<noteq> '':'' \<Longrightarrow>
   map_of SEARCH_COMPARISON_OPERATORS d = Some op' \<Longrightarrow>
   make_match_fcn E key v d fm q
     = Inr (field_predicate sr (\<lambda>x. compare E sr (strip (remove_escapes v special_chars)) x op'))"
  by (simp add: make_match_fcn_def field_predicate_def)

lemma normalize_size: "normalize_field ''size'' = ''size''"
  by (simp add: normalize_field_def replace_space_def strip_def lower_def lower_char_def upper_letters_def lower_letters_def
      is_space_def)

lemma strip_20MB: "strip (remove_escapes ''20MB'' special_chars) = ''20MB''"
  by (simp add: strip_def is_space_def special_chars_def backslash_def)

text \<open>
  Claim C1. A clause \<^verbatim>\<open>field<operator>value\<close> on a registered field parses to one
  predicate on the record attribute of the field's searcher, and the operator selects
  it as the table says: \<^verbatim>\<open>:\<close> gives \<^verbatim>\<open>contains(value, record-value)\<close> and no
  comparison; \<^verbatim>\<open>==\<close> gives \<^verbatim>\<open>compare\<close> with equality, \<^verbatim>\<open><\<close> with greater-than,
  \<^verbatim>\<open><=\<close> with greater-or-equal, \<^verbatim>\<open>>\<close> with less-than and \<^verbatim>\<open>>=\<close> with
  less-or-equal. The relation is applied to the user value first and the record value
  second, on strings for a String field and on the parsed byte count for a ByteSize
  field, so that \<^verbatim>\<open>size<V\<close> holds when the record's size is less than \<open>V\<close>. If
  \<^verbatim>\<open>20MB\<close> parses to twenty units, \<^verbatim>\<open>size<20MB\<close> holds of a record of ten units and
  not of one of twenty-five.
\<close>

theorem C1_operator_dispatch:
  assumes fm: "map_of fm (normalize_field key) = Some sr"
      and key: "\<not> has_unescaped '',:=<>'' False key" "key = [] \<or> last key \<noteq> backslash"
      and v: "v = [] \<or> hd v \<notin> set '':=<>''" "\<not> has_unescaped '','' False v"
      and v': "v' = strip (remove_escapes v special_chars)"
  shows "parse_search_str E (key @ '':'' @ v) fm
           = [Inr (field_predicate sr (\<lambda>x. contains E sr v' x))]
     \<and> parse_search_str E (key @ ''=='' @ v) fm
           = [Inr (field_predicate sr (\<lambda>x. compare E sr v' x OpEq))]
     \<and> parse_search_str E (key @ ''<'' @ v) fm
           = [Inr (field_predicate sr (\<lambda>x. compare E sr v' x OpGt))]
     \<and> parse_search_str E (key @ ''<='' @ v) fm
           = [Inr (field_predicate sr (\<lambda>x. compare E sr v' x OpGe))]
     \<and> parse_search_str E (key @ ''>'' @ v) fm
           = [Inr (field_predicate sr (\<lambda>x. compare E sr v' x OpLt))]
     \<and> parse_search_str E (key @ ''>='' @ v) fm
           = [Inr (field_predicate sr (\<lambda>x. compare E sr v' x OpLe))]
     \<and> compare E (StringSearcher nm) u x op' = Inr (apply_op op' u (py_str E x))
     \<and> (from_human_bytes_str E u = Inr ub \<longrightarrow>
          compare E (BytesSearcher nm) u (PInt n) op' = Inr (apply_op op' ub n) \<and>
          compare E (BytesSearcher nm) u (PInt n) OpGt = Inr (n < ub) \<and>
          compare E (BytesSearcher nm) u (PInt n) OpGe = Inr (n \<le> ub) \<and>
          compare E (BytesSearcher nm) u (PInt n) OpLt = Inr (ub < n) \<and>
          compare E (BytesSearcher nm) u (PInt n) OpLe = Inr (ub \<le> n) \<and>
          compare E (BytesSearcher nm) u (PInt n) OpEq = Inr (ub = n))
     \<and> (from_human_bytes_str E ''20MB'' = Inr (20 * mb) \<and> 0 < mb \<longrightarrow>
          (\<exists>f. parse_search_str E ''size<20MB'' S3_SEARCH_FIELDS_MAP = [Inr f]
             \<and> f (s3_record nm (PInt (10 * mb))) = Inr True
             \<and> f (s3_record nm (PInt (25 * mb))) = Inr False))"
proof -
  note pc = parse_field_clause [OF key _ _ v]
  have 1: "parse_search_str E (key @ '':'' @ v) fm
           = [Inr (field_predicate sr (\<lambda>x. contains E sr v' x))]"
    using pc [of "'':''" E fm] make_match_fcn_contains [OF fm] v' by simp
  have cmp: "parse_search_str E (key @ d @ v) fm
           = [Inr (field_predicate sr (\<lambda>x. compare E sr v' x op'))]"
    if "d \<noteq> []" "set d \<subseteq> set '':=<>''" "d \<noteq> '':''"
       "map_of SEARCH_COMPARISON_OPERATORS d = Some op'" for d op'
    using pc [OF that(1,2), of E fm] make_match_fcn_compare [OF fm that(3,4)] v' by simp
  have 2: "parse_search_str E (key @ ''=='' @ v) fm
           = [Inr (field_predicate sr (\<lambda>x. compare E sr v' x OpEq))]"
    by (rule cmp) (simp_all add: SEARCH_COMPARISON_OPERATORS_def)
  have 3: "parse_search_str E (key @ ''<'' @ v) fm
           = [Inr (field_predicate sr (\<lambda>x. compare E sr v' x OpGt))]"
    by (rule cmp) (simp_all add: SEARCH_COMPARISON_OPERATORS_def)
  have 4: "parse_search_str E (key @ ''<='' @ v) fm
           = [Inr (field_predicate sr (\<lambda>x. compare E sr v' x OpGe))]"
    by (rule cmp) (simp_all add: SEARCH_COMPARISON_OPERATORS_def)
  have 5: "parse_search_str E (key @ ''>'' @ v) fm
           = [Inr (field_predicate sr (\<lambda>x. compare E sr v' x OpLt))]"
    by (rule cmp) (simp_all add: SEARCH_COMPARISON_OPERATORS_def)
  have 6: "parse_search_str E (key @ ''>='' @ v) fm
           = [Inr (field_predicate sr (\<lambda>x. compare E sr v' x OpLe))]"
    by (rule cmp) (simp_all add: SEARCH_COMPARISON_OPERATORS_def)
  have 7: "compare E (StringSearcher nm) u x op' = Inr (apply_op op' u (py_str E x))"
    by simp
  have 8: "from_human_bytes_str E u = Inr ub \<longrightarrow>
          compare E (BytesSearcher nm) u (PInt n) op' = Inr (apply_op op' ub n) \<and>
          compare E (BytesSearcher nm) u (PInt n) OpGt = Inr (n < ub) \<and>
          compare E (BytesSearcher nm) u (PInt n) OpGe = Inr (n \<le> ub) \<and>
          compare E (BytesSearcher nm) u (PInt n) OpLt = Inr (ub < n) \<and>
          compare E (BytesSearcher nm) u (PInt n) OpLe = Inr (ub \<le> n) \<and>
          compare E (BytesSearcher nm) u (PInt n) OpEq = Inr (ub = n)"
    by simp
  have 9: "\<exists>f. parse_search_str E ''size<20MB'' S3_SEARCH_FIELDS_MAP = [Inr f]
             \<and> f (s3_record nm (PInt (10 * mb))) = Inr True
             \<and> f (s3_record nm (PInt (25 * mb))) = Inr False"
    if h: "from_human_bytes_str E ''20MB'' = Inr (20 * mb)" and mb: "0 < mb"
  proof -
    let ?sr = "BytesSearcher ''size''"
    let ?f = "field_predicate ?sr (\<lambda>x. compare E ?sr ''20MB'' x OpGt)"
    have m: "map_of S3_SEARCH_FIELDS_MAP (normalize_field ''size'') = Some ?sr"
      by (simp add: normalize_size S3_SEARCH_FIELDS_MAP_def)
    have "parse_search_str E (''size'' @ ''<'' @ ''20MB'') S3_SEARCH_FIELDS_MAP
        = [make_match_fcn E ''size'' ''20MB'' ''<'' S3_SEARCH_FIELDS_MAP (''size'' @ ''<'' @ ''20MB'')]"
      by (rule parse_field_clause) (simp_all add: backslash_def)
    also have "\<dots> = [Inr ?f]"
    proof -
      have "make_match_fcn E ''size'' ''20MB'' ''<'' S3_SEARCH_FIELDS_MAP (''size'' @ ''<'' @ ''20MB'')
          = Inr (field_predicate ?sr
              (\<lambda>x. compare E ?sr (strip (remove_escapes ''20MB'' special_chars)) x OpGt))"
        by (rule make_match_fcn_compare [OF m]) (simp_all add: SEARCH_COMPARISON_OPERATORS_def)
      then show ?thesis unfolding strip_20MB by (rule arg_cong [where f = "\<lambda>z. [z]"])
    qed
    finally have p: "parse_search_str E ''size<20MB'' S3_SEARCH_FIELDS_MAP = [Inr ?f]"
      by simp
    have g: "getitem (s3_record nm z) ''size'' = Inr z" for z
      by (simp add: getitem_def s3_record_def)
    have a: "?f (s3_record nm (PInt (10 * mb))) = Inr True"
      using h mb by (simp add: field_predicate_def g)
    have b: "?f (s3_record nm (PInt (25 * mb))) = Inr False"
      using h mb by (simp add: field_predicate_def g)
    from p a b show ?thesis by blast
  qed
  from 1 2 3 4 5 6 7 8 9 show ?thesis by blast
qed

text \<open>
  The theorem at the clause \<^verbatim>\<open>size<20MB\<close> of an S3 listing, with 20MB parsed as
  20 * 1048576 bytes.
\<close>

theorem C1_operator_dispatch_witness:
  "map_of S3_SEARCH_FIELDS_MAP (normalize_field ''size'') = Some (BytesSearcher ''size'')
   \<and> \<not> has_unescaped '',:=<>'' False ''size''
   \<and> last ''size'' \<noteq> backslash
   \<and> hd ''20MB'' \<notin> set '':=<>''
   \<and> \<not> has_unescaped '','' False ''20MB''
   \<and> ''20MB'' = strip (remove_escapes ''20MB'' special_chars)
   \<and> parse_search_str T_env ''size<20MB'' S3_SEARCH_FIELDS_MAP
        = [Inr (field_predicate (BytesSearcher ''size'')
                  (\<lambda>x. compare T_env (BytesSearcher ''size'') ''20MB'' x OpGt))]
   \<and> from_human_bytes_str T_env ''20MB'' = Inr (20 * 1048576)
   \<and> (\<exists>f. parse_search_str T_env ''size<20MB'' S3_SEARCH_FIELDS_MAP = [Inr f]
          \<and> f (s3_record ''a'' (PInt (10 * 1048576))) = Inr True
          \<and> f (s3_record ''a'' (PInt (25 * 1048576))) = Inr False)"
proof -
  have a: "map_of S3_SEARCH_FIELDS_MAP (normalize_field ''size'') = Some (BytesSearcher ''size'')"
    by (simp add: normalize_size S3_SEARCH_FIELDS_MAP_def)
  have b: "\<not> has_unescaped '',:=<>'' False ''size''" by simp
  have c: "''size'' = [] \<or> last ''size'' \<noteq> backslash" by (simp add: backslash_def)
  have d: "''20MB'' = [] \<or> hd ''20MB'' \<notin> set '':=<>''" by simp
  have e: "\<not> has_unescaped '','' False ''20MB''" by simp
  have f: "''20MB'' = strip (remove_escapes ''20MB'' special_chars)"
    by (rule strip_20MB [symmetric])
  have g: "from_human_bytes_str T_env ''20MB'' = Inr (20 * 1048576)"
    by (simp add: T_env_def)
  note th = C1_operator_dispatch [OF a b c d e f, where E = T_env and mb = 1048576 and nm = "''a''"]
  have ap: "''size'' @ ''<'' @ ''20MB'' = ''size<20MB''" by simp
  have g': "from_human_bytes_str T_env ''20MB'' = Inr (20 * 1048576) \<and> (0::int) < 1048576"
    using g by simp
  have "parse_search_str T_env (''size'' @ ''<'' @ ''20MB'') S3_SEARCH_FIELDS_MAP
        = [Inr (field_predicate (BytesSearcher ''size'')
                  (\<lambda>x. compare T_env (BytesSearcher ''size'') ''20MB'' x OpGt))]"
    by (rule th [THEN conjunct2, THEN conjunct2, THEN conjunct1])
  then have p: "parse_search_str T_env ''size<20MB'' S3_SEARCH_FIELDS_MAP
        = [Inr (field_predicate (BytesSearcher ''size'')
                  (\<lambda>x. compare T_env (BytesSearcher ''size'') ''20MB'' x OpGt))]"
    unfolding ap .
  have x: "\<exists>f. parse_search_str T_env ''size<20MB'' S3_SEARCH_FIELDS_MAP = [Inr f]
          \<and> f (s3_record ''a'' (PInt (10 * 1048576))) = Inr True
          \<and> f (s3_record ''a'' (PInt (25 * 1048576))) = Inr False"
    by (rule th [THEN conjunct2, THEN conjunct2, THEN conjunct2, THEN conjunct2, THEN conjunct2,
          THEN conjunct2, THEN conjunct2, THEN conjunct2, THEN mp, OF g'])
  have c': "last ''size'' \<noteq> backslash" by (simp add: backslash_def)
  have d': "hd ''20MB'' \<notin> set '':=<>''" by simp
  show ?thesis
    by (intro conjI) (rule a b c' d' e f p g x)+
qed

section \<open>Datetime comparison: properties\<close>

lemma apply_op_shift: "apply_op op' (a + c) (b + c) = apply_op op' a (b::int)"
  by (cases op') auto

lemma astimezone_local_instant: "astimezone_local E d = localize E (instant_of E d)"
  by (cases d) simp_all

text \<open>
  Claim C9. A Datetime comparison parses the user literal with the ISO-8601 parser, and
  converts both it and the record's timestamp to the local zone before it applies the
  relation to the user datetime first and the record datetime second. The conversion
  keeps the instant: an explicit offset is honoured, and a literal with no offset is
  read in local time. Where the local zone has the same offset at both instants, the
  result is the relation on the two instants. A record timestamp given as a string is
  parsed the same way.
\<close>

theorem C9_datetime_compare:
  assumes "isoparse E usr = Inr u"
  shows "compare E (DatetimeSearcher nm) usr (PDatetime r) op'
           = dt_op op' (astimezone_local E u) (astimezone_local E r)
     \<and> astimezone_local E d = localize E (instant_of E d)
     \<and> localize E i
           = Aware (i + localzone_utcoffset E i) (localzone_utcoffset E i) (localzone_tzinfo E i)
     \<and> instant_of E (localize E i) = i
     \<and> instant_of E (Aware w off tz) = w - off
     \<and> instant_of E (Naive w) = w - system_utcoffset E w
     \<and> (localzone_utcoffset E (instant_of E u) = localzone_utcoffset E (instant_of E r) \<longrightarrow>
          compare E (DatetimeSearcher nm) usr (PDatetime r) op'
            = Inr (apply_op op' (instant_of E u) (instant_of E r)))
     \<and> (isoparse E rs = Inr r \<longrightarrow>
          compare E (DatetimeSearcher nm) usr (PStr rs) op'
            = dt_op op' (astimezone_local E u) (astimezone_local E r))"
proof -
  have 1: "compare E (DatetimeSearcher nm) usr (PDatetime r) op'
           = dt_op op' (astimezone_local E u) (astimezone_local E r)"
    using assms by simp
  have 2: "astimezone_local E d = localize E (instant_of E d)"
    by (rule astimezone_local_instant)
  have 3: "localize E i
           = Aware (i + localzone_utcoffset E i) (localzone_utcoffset E i) (localzone_tzinfo E i)"
    by (simp add: localize_def)
  have 4: "instant_of E (localize E i) = i"
    by (simp add: localize_def)
  have 7: "compare E (DatetimeSearcher nm) usr (PDatetime r) op'
            = Inr (apply_op op' (instant_of E u) (instant_of E r))"
    if "localzone_utcoffset E (instant_of E u) = localzone_utcoffset E (instant_of E r)"
    unfolding 1 astimezone_local_instant
    using that by (simp add: localize_def apply_op_shift)
  have 8: "isoparse E rs = Inr r \<longrightarrow>
          compare E (DatetimeSearcher nm) usr (PStr rs) op'
            = dt_op op' (astimezone_local E u) (astimezone_local E r)"
    using assms by simp
  from 1 2 3 4 7 8 show ?thesis by simp
qed

text \<open>
  The theorem at the clause \<^verbatim>\<open>last modified<2020-01-01\<close> and a record stamped
  2019-12-31T23:00:00-05:00, with a local zone five hours behind UTC.
\<close>

theorem C9_datetime_compare_witness:
  "isoparse T_env ''2020-01-01'' = Inr (Naive 1577836800)
   \<and> compare T_env (DatetimeSearcher ''last_modified'') ''2020-01-01''
        (PDatetime (Aware 1577833200 (- 18000) 1)) OpGt
      = dt_op OpGt (astimezone_local T_env (Naive 1577836800))
          (astimezone_local T_env (Aware 1577833200 (- 18000) 1))
   \<and> dt_op OpGt (astimezone_local T_env (Naive 1577836800))
          (astimezone_local T_env (Aware 1577833200 (- 18000) 1)) = Inr True"
proof -
  have a: "isoparse T_env ''2020-01-01'' = Inr (Naive 1577836800)"
    by (simp add: T_env_def)
  note th = C9_datetime_compare [OF a, where nm = "''last_modified''"
      and r = "Aware 1577833200 (- 18000) 1" and op' = OpGt]
  have b: "compare T_env (DatetimeSearcher ''last_modified'') ''2020-01-01''
        (PDatetime (Aware 1577833200 (- 18000) 1)) OpGt
      = dt_op OpGt (astimezone_local T_env (Naive 1577836800))
          (astimezone_local T_env (Aware 1577833200 (- 18000) 1))"
    by (rule th [THEN conjunct1])
  have c: "dt_op OpGt (astimezone_local T_env (Naive 1577836800))
          (astimezone_local T_env (Aware 1577833200 (- 18000) 1)) = Inr True"
    by (simp add: localize_def T_env_def)
  show ?thesis
    by (intro conjI) (rule a b c)+
qed

section \<open>Directory synchronisation: properties\<close>

lemma planned_map: "planned a (map (\<lambda>p. (p, g p)) xs) = filter (\<lambda>p. g p = a) xs"
  by (induction xs) (auto simp: planned_def)

lemma planned_syncDir:
  "planned a (syncDir d overwrite L R)
     = filter (\<lambda>p. (if p \<in> set (sync_dest d L R) \<and> \<not> overwrite then Skip else Transfer) = a)
         (sync_source d L R)"
  unfolding syncDir_def by (rule planned_map)

text \<open>
  Claim C5. The plan of \<^verbatim>\<open>syncDir\<close> has one entry for every file of the source side
  and no other: the files it transfers are those of the source that are absent from the
  destination, together with those on both sides exactly when \<^verbatim>\<open>overwrite\<close> is set; the
  files on both sides are skipped otherwise; a file that is only in the destination is
  not in the plan. With local files a.txt, b.txt and remote files b.txt, c.txt, an
  upload without overwrite transfers a.txt only and skips b.txt, with overwrite it
  transfers a.txt and b.txt, and c.txt is in neither plan.
\<close>

theorem C5_sync_plan:
  "set (planned Transfer (syncDir d overwrite L R))
     = (set (sync_source d L R) - set (sync_dest d L R))
       \<union> (if overwrite then set (sync_source d L R) \<inter> set (sync_dest d L R) else {})
   \<and> set (planned Skip (syncDir d overwrite L R))
     = (if overwrite then {} else set (sync_source d L R) \<inter> set (sync_dest d L R))
   \<and> map fst (syncDir d overwrite L R) = sync_source d L R
   \<and> (set (sync_dest d L R) - set (sync_source d L R)) \<inter> fst ` set (syncDir d overwrite L R) = {}
   \<and> sync_source Upload L R = L \<and> sync_dest Upload L R = R
   \<and> sync_source Download L R = R \<and> sync_dest Download L R = L
   \<and> syncDir Upload False [''a.txt'', ''b.txt''] [''b.txt'', ''c.txt'']
        = [(''a.txt'', Transfer), (''b.txt'', Skip)]
   \<and> planned Transfer (syncDir Upload False [''a.txt'', ''b.txt''] [''b.txt'', ''c.txt''])
        = [''a.txt'']
   \<and> planned Transfer (syncDir Upload True [''a.txt'', ''b.txt''] [''b.txt'', ''c.txt''])
        = [''a.txt'', ''b.txt'']
   \<and> ''c.txt'' \<notin> fst ` set (syncDir Upload False [''a.txt'', ''b.txt''] [''b.txt'', ''c.txt''])
   \<and> ''c.txt'' \<notin> fst ` set (syncDir Upload True [''a.txt'', ''b.txt''] [''b.txt'', ''c.txt''])"
proof -
  have 1: "set (planned Transfer (syncDir d overwrite L R))
     = (set (sync_source d L R) - set (sync_dest d L R))
       \<union> (if overwrite then set (sync_source d L R) \<inter> set (sync_dest d L R) else {})"
    by (auto simp: planned_syncDir)
  have 2: "set (planned Skip (syncDir d overwrite L R))
     = (if overwrite then {} else set (sync_source d L R) \<inter> set (sync_dest d L R))"
    by (auto simp: planned_syncDir)
  have 3: "map fst (syncDir d overwrite L R) = sync_source d L R"
    by (simp add: syncDir_def comp_def)
  have "fst ` set (syncDir d overwrite L R) = set (sync_source d L R)"
    using 3 by (metis set_map)
  then have 4: "(set (sync_dest d L R) - set (sync_source d L R)) \<inter> fst ` set (syncDir d overwrite L R) = {}"
    by auto
  have 5: "sync_source Upload L R = L \<and> sync_dest Upload L R = R
   \<and> sync_source Download L R = R \<and> sync_dest Download L R = L"
    by (simp add: sync_source_def sync_dest_def)
  have 6: "syncDir Upload False [''a.txt'', ''b.txt''] [''b.txt'', ''c.txt'']
        = [(''a.txt'', Transfer), (''b.txt'', Skip)]"
    by (simp add: syncDir_def sync_source_def sync_dest_def)
  have 7: "syncDir Upload True [''a.txt'', ''b.txt''] [''b.txt'', ''c.txt'']
        = [(''a.txt'', Transfer), (''b.txt'', Transfer)]"
    by (simp add: syncDir_def sync_source_def sync_dest_def)
  have 8: "planned Transfer (syncDir Upload False [''a.txt'', ''b.txt''] [''b.txt'', ''c.txt''])
        = [''a.txt'']"
    unfolding 6 by (simp add: planned_def)
  have 9: "planned Transfer (syncDir Upload True [''a.txt'', ''b.txt''] [''b.txt'', ''c.txt''])
        = [''a.txt'', ''b.txt'']"
    unfolding 7 by (simp add: planned_def)
  have 10: "''c.txt'' \<notin> fst ` set (syncDir Upload False [''a.txt'', ''b.txt''] [''b.txt'', ''c.txt''])"
    unfolding 6 by simp
  have 11: "''c.txt'' \<notin> fst ` set (syncDir Upload True [''a.txt'', ''b.txt''] [''b.txt'', ''c.txt''])"
    unfolding 7 by simp
  from 1 2 3 4 5 6 8 9 10 11 show ?thesis by blast
qed

text \<open>The theorem at a download of two remote files onto one local file.\<close>

theorem C5_sync_plan_witness:
  "set (planned Transfer (syncDir Download False [''x''] [''x'', ''y''])) = {''y''}
   \<and> set (planned Skip (syncDir Download False [''x''] [''x'', ''y''])) = {''x''}"
proof -
  note th = C5_sync_plan [of Download False "[''x'']" "[''x'', ''y'']"]
  have s: "sync_source Download [''x''] [''x'', ''y''] = [''x'', ''y'']"
    and d: "sync_dest Download [''x''] [''x'', ''y''] = [''x'']"
    by (simp_all add: sync_source_def sync_dest_def)
  have a: "set (planned Transfer (syncDir Download False [''x''] [''x'', ''y''])) = {''y''}"
    using th [THEN conjunct1] unfolding s d by auto
  have b: "set (planned Skip (syncDir Download False [''x''] [''x'', ''y''])) = {''x''}"
    using th [THEN conjunct2, THEN conjunct1] unfolding s d by auto
  from a b show ?thesis by blast
qed

section \<open>Sorting: properties\<close>

lemma sort_keys_missing:
  "r \<in> set rs \<Longrightarrow> map_of r k = None \<Longrightarrow> sort_keys k rs = Inl (KeyError k)"
proof (induction rs)
  case Nil
  then show ?case by simp
next
  case (Cons a rs)
  show ?case
  proof (cases "map_of a k")
    case None
    then show ?thesis by (simp add: getitem_def)
  next
    case (Some x)
    with Cons have "sort_keys k rs = Inl (KeyError k)" by auto
    with Some show ?thesis by (simp add: getitem_def)
  qed
qed

text \<open>
  The sort reads the record under the normalized sort-by name itself, never through the
  field map: a record that lacks that key makes it raise, whatever the field map holds.
\<close>

lemma sort_stage_missing_key:
  assumes "sb \<noteq> []" and "r \<in> set records" and "map_of r (normalize_field sb) = None"
  shows "sort_stage records (Some sb) ascending fm
           = Inl (InvalidSortField sb (normalize_field sb) (map fst fm))"
  using assms sort_keys_missing [OF assms(2,3)]
  by (simp add: sort_stage_def sorted_py_def)

lemma normalize_name: "normalize_field ''name'' = ''name''"
  by (simp add: normalize_field_def replace_space_def strip_def lower_def lower_char_def upper_letters_def lower_letters_def
      is_space_def)

text \<open>
  Claim C2, at a listing of two S3 records. \<^verbatim>\<open>name\<close> is a key of the S3 field map (its
  searcher reads the attribute \<^verbatim>\<open>object_name\<close>), yet sorting by it raises the
  invalid-sort-field error, whose message lists \<^verbatim>\<open>name\<close> among the supported keys;
  \<^verbatim>\<open>object_name\<close>, which is no key of the field map, sorts the records; and on an
  empty listing an unknown field raises nothing.
\<close>

theorem C2_sort_by_registry_key:
  "map_of S3_SEARCH_FIELDS_MAP (normalize_field ''name'') = Some (StringSearcher ''object_name'')
   \<and> filter_records T_env [s3_record ''a'' (PInt 1), s3_record ''b'' (PInt 2)] (- 1) None
        (Some ''name'') False S3_SEARCH_FIELDS_MAP
      = Inl (InvalidSortField ''name'' ''name''
               [''bucket'', ''name'', ''size'', ''type'', ''last_modified''])
   \<and> map_of S3_SEARCH_FIELDS_MAP (normalize_field ''object_name'') = None
   \<and> filter_records T_env [s3_record ''a'' (PInt 1), s3_record ''b'' (PInt 2)] (- 1) None
        (Some ''object_name'') False S3_SEARCH_FIELDS_MAP
      = Inr [s3_record ''b'' (PInt 2), s3_record ''a'' (PInt 1)]
   \<and> map_of S3_SEARCH_FIELDS_MAP (normalize_field ''colour'') = None
   \<and> filter_records T_env [] (- 1) None (Some ''colour'') False S3_SEARCH_FIELDS_MAP = Inr []"
proof -
  have 1: "map_of S3_SEARCH_FIELDS_MAP (normalize_field ''name'') = Some (StringSearcher ''object_name'')"
    by (simp add: normalize_name S3_SEARCH_FIELDS_MAP_def)
  have 2: "filter_records T_env [s3_record ''a'' (PInt 1), s3_record ''b'' (PInt 2)] (- 1) None
        (Some ''name'') False S3_SEARCH_FIELDS_MAP
      = Inl (InvalidSortField ''name'' ''name''
               [''bucket'', ''name'', ''size'', ''type'', ''last_modified''])"
    by code_simp
  have 3: "map_of S3_SEARCH_FIELDS_MAP (normalize_field ''object_name'') = None"
    by code_simp
  have 4: "filter_records T_env [s3_record ''a'' (PInt 1), s3_record ''b'' (PInt 2)] (- 1) None
        (Some ''object_name'') False S3_SEARCH_FIELDS_MAP
      = Inr [s3_record ''b'' (PInt 2), s3_record ''a'' (PInt 1)]"
    by code_simp
  have 5: "map_of S3_SEARCH_FIELDS_MAP (normalize_field ''colour'') = None"
    by code_simp
  have 6: "filter_records T_env [] (- 1) None (Some ''colour'') False S3_SEARCH_FIELDS_MAP = Inr []"
    by code_simp
  from 1 2 3 4 5 6 show ?thesis by blast
qed

section \<open>Unknown fields\<close>

text \<open>
  Claim C8, as amended. A clause \<^verbatim>\<open>field<operator>value\<close> whose normalized field name
  is not a key of the field map makes \<^verbatim>\<open>_make_match_fcn\<close>, and so the parsing of that
  clause, raise the error that carries the search string, the field as written, the
  normalized field and the keys of the field map, whatever the operator. A query that
  holds such a clause returns no records: the pipeline ends with an error. The clauses
  are parsed and applied one after the other, so the error is the one of the first
  clause that raises, in being parsed or in being applied to the records: it is this
  clause's error exactly when the clauses before it raise nothing, as it is when the
  clause is the first of the query.
\<close>

theorem C8_unknown_field:
  assumes "map_of fm (normalize_field key) = None"
  shows "make_match_fcn E key v delimiter fm q
           = Inl (InvalidSearchKey q key (normalize_field key) (map fst fm))
     \<and> (split_on_chars s '':=<>'' (Some 1) True = [key, delimiter, v]
        \<longrightarrow> parse_clause E fm q s
              = Inl (InvalidSearchKey q key (normalize_field key) (map fst fm)))
     \<and> (s \<in> set (split_on_chars q '','' None False)
          \<and> split_on_chars s '':=<>'' (Some 1) True = [key, delimiter, v]
        \<longrightarrow> (\<exists>e. filter_records E records limit (Some q) sort_by ascending fm = Inl e))
     \<and> (split_on_chars q '','' None False = pre @ s # post
          \<and> split_on_chars s '':=<>'' (Some 1) True = [key, delimiter, v]
        \<longrightarrow> filter_records E records limit (Some q) sort_by ascending fm
              = (case apply_matches (map (parse_clause E fm q) pre) records of
                   Inl e \<Rightarrow> Inl e
                 | Inr records' \<Rightarrow>
                     Inl (InvalidSearchKey q key (normalize_field key) (map fst fm))))
     \<and> (split_on_chars q '','' None False = s # post
          \<and> split_on_chars s '':=<>'' (Some 1) True = [key, delimiter, v]
        \<longrightarrow> filter_records E records limit (Some q) sort_by ascending fm
              = Inl (InvalidSearchKey q key (normalize_field key) (map fst fm)))"
proof -
  let ?err = "InvalidSearchKey q key (normalize_field key) (map fst fm)"
  have mk: "make_match_fcn E key v delimiter fm q = Inl ?err"
    using assms by (simp add: make_match_fcn_def)
  have pc: "parse_clause E fm q s = Inl ?err"
    if "split_on_chars s '':=<>'' (Some 1) True = [key, delimiter, v]"
    using that mk by (simp add: parse_clause_def)
  have ne: "q \<noteq> []"
    if "s \<in> set (split_on_chars q '','' None False)"
      and "split_on_chars s '':=<>'' (Some 1) True = [key, delimiter, v]"
  proof
    assume "q = []"
    with that(1) have "s = []" by (simp add: split_on_chars_empty)
    with that(2) show False by (simp add: split_on_chars_empty)
  qed
  have a: "\<exists>e. filter_records E records limit (Some q) sort_by ascending fm = Inl e"
    if 1: "s \<in> set (split_on_chars q '','' None False)"
      and 2: "split_on_chars s '':=<>'' (Some 1) True = [key, delimiter, v]"
  proof -
    from 1 pc [OF 2] have "Inl ?err \<in> set (parse_search_str E q fm)"
      by (force simp: parse_search_str_def)
    then obtain e where "apply_matches (parse_search_str E q fm) records = Inl e"
      using apply_matches_Inl by blast
    with ne [OF 1 2] show ?thesis
      by (simp add: filter_records_def filter_stage_def)
  qed
  have b: "filter_records E records limit (Some q) sort_by ascending fm
         = (case apply_matches (map (parse_clause E fm q) pre) records of
              Inl e \<Rightarrow> Inl e | Inr records' \<Rightarrow> Inl ?err)"
    if 1: "split_on_chars q '','' None False = pre @ s # post"
      and 2: "split_on_chars s '':=<>'' (Some 1) True = [key, delimiter, v]" for pre
  proof -
    from 1 have "s \<in> set (split_on_chars q '','' None False)" by simp
    from ne [OF this 2] have q: "q \<noteq> []" .
    have "apply_matches (parse_search_str E q fm) records
        = (case apply_matches (map (parse_clause E fm q) pre) records of
              Inl e \<Rightarrow> Inl e | Inr records' \<Rightarrow> Inl ?err)"
      using 1 pc [OF 2]
      by (simp add: parse_search_str_def apply_matches_append split: sum.splits)
    with q show ?thesis
      by (simp add: filter_records_def filter_stage_def split: sum.splits)
  qed
  have c: "filter_records E records limit (Some q) sort_by ascending fm = Inl ?err"
    if 1: "split_on_chars q '','' None False = s # post"
      and 2: "split_on_chars s '':=<>'' (Some 1) True = [key, delimiter, v]"
    using b [of "[]"] 1 2 by simp
  from mk pc a b c show ?thesis by blast
qed

text \<open>The theorem at the query \<^verbatim>\<open>Colour:red\<close> on an S3 listing.\<close>

theorem C8_unknown_field_witness:
  "map_of S3_SEARCH_FIELDS_MAP (normalize_field ''Colour'') = None
   \<and> split_on_chars ''Colour:red'' '','' None False = ''Colour:red'' # []
   \<and> split_on_chars ''Colour:red'' '':=<>'' (Some 1) True = [''Colour'', '':'', ''red'']
   \<and> filter_records T_env [s3_record ''a'' (PInt 1)] (- 1) (Some ''Colour:red'') None False
        S3_SEARCH_FIELDS_MAP
      = Inl (InvalidSearchKey ''Colour:red'' ''Colour'' ''colour''
               [''bucket'', ''name'', ''size'', ''type'', ''last_modified''])"
proof -
  have n: "normalize_field ''Colour'' = ''colour''"
    by code_simp
  have k: "map_of S3_SEARCH_FIELDS_MAP (normalize_field ''Colour'') = None"
    unfolding n by (simp add: S3_SEARCH_FIELDS_MAP_def)
  have 1: "split_on_chars ''Colour:red'' '','' None False = ''Colour:red'' # []"
    by code_simp
  have 2: "split_on_chars ''Colour:red'' '':=<>'' (Some 1) True = [''Colour'', '':'', ''red'']"
    by code_simp
  have f: "map fst S3_SEARCH_FIELDS_MAP = [''bucket'', ''name'', ''size'', ''type'', ''last_modified'']"
    by (simp add: S3_SEARCH_FIELDS_MAP_def)
  note th = C8_unknown_field [OF k, where E = T_env and q = "''Colour:red''"
      and s = "''Colour:red''" and delimiter = "'':''" and v = "''red''" and post = "[]"
      and records = "[s3_record ''a'' (PInt 1)]" and limit = "- 1" and sort_by = None
      and ascending = False]
  have "filter_records T_env [s3_record ''a'' (PInt 1)] (- 1) (Some ''Colour:red'') None False
        S3_SEARCH_FIELDS_MAP
      = Inl (InvalidSearchKey ''Colour:red'' ''Colour'' (normalize_field ''Colour'')
               (map fst S3_SEARCH_FIELDS_MAP))"
    by (rule th [THEN conjunct2, THEN conjunct2, THEN conjunct2, THEN conjunct2, THEN mp])
       (rule conjI [OF 1 2])
  then have 3: "filter_records T_env [s3_record ''a'' (PInt 1)] (- 1) (Some ''Colour:red'') None False
        S3_SEARCH_FIELDS_MAP
      = Inl (InvalidSearchKey ''Colour:red'' ''Colour'' ''colour''
               [''bucket'', ''name'', ''size'', ''type'', ''last_modified''])"
    unfolding n f .
  show ?thesis
    by (intro conjI) (rule k 1 2 3)+
qed

text \<open>
  The claim as first worded fails on three queries whose second clause
  \<^verbatim>\<open>Colour:red\<close> names an unknown field: the error raised is the one of the first
  clause, a TypeError from comparing a byte count with a size that is None, the error
  of an unsupported operator, and the unknown-field error of another field.
\<close>

theorem C8_unknown_field_counterexample:
  "map_of S3_SEARCH_FIELDS_MAP (normalize_field ''Colour'') = None
   \<and> split_on_chars ''Colour:red'' '':=<>'' (Some 1) True = [''Colour'', '':'', ''red'']
   \<and> split_on_chars ''size<20MB,Colour:red'' '','' None False = [''size<20MB'', ''Colour:red'']
   \<and> filter_records T_env [s3_record ''a'' PNone] (- 1) (Some ''size<20MB,Colour:red'') None
        False S3_SEARCH_FIELDS_MAP
      = Inl TypeError
   \<and> split_on_chars ''name=a,Colour:red'' '','' None False = [''name=a'', ''Colour:red'']
   \<and> filter_records T_env [s3_record ''a'' (PInt 1)] (- 1) (Some ''name=a,Colour:red'') None
        False S3_SEARCH_FIELDS_MAP
      = Inl (InvalidSearchDelimiter ''name=a,Colour:red'' ''='')
   \<and> split_on_chars ''Foo:1,Colour:red'' '','' None False = [''Foo:1'', ''Colour:red'']
   \<and> filter_records T_env [s3_record ''a'' (PInt 1)] (- 1) (Some ''Foo:1,Colour:red'') None
        False S3_SEARCH_FIELDS_MAP
      = Inl (InvalidSearchKey ''Foo:1,Colour:red'' ''Foo'' ''foo''
               [''bucket'', ''name'', ''size'', ''type'', ''last_modified''])"
  by code_simp

section \<open>The filter: clauses, bare literals and conjunction\<close>

lemma join_commas_Cons: "ts \<noteq> [] \<Longrightarrow> \<exists>rest. join_commas ts = hd ts @ rest"
  by (cases ts rule: join_commas.cases) auto

lemma every_other_split_join:
  "ts \<noteq> [] \<Longrightarrow>
   \<forall>t \<in> set ts. t \<noteq> [] \<and> \<not> has_unescaped '','' False t \<and> last t \<noteq> backslash \<Longrightarrow>
   every_other (re_split_aux '','' 0 n False [] (join_commas ts)) = ts"
proof (induction ts arbitrary: n rule: join_commas.induct)
  case 1
  then show ?case by simp
next
  case (2 t)
  then show ?case by (simp add: re_split_aux_no_unescaped)
next
  case (3 t t' ts)
  let ?J = "join_commas (t' # ts)"
  from 3(3) have t: "t \<noteq> []" "\<not> has_unescaped '','' False t" "last t \<noteq> backslash"
    and t': "t' \<noteq> []" "\<not> has_unescaped '','' False t'"
    by auto
  obtain rest where J: "?J = t' @ rest"
    using join_commas_Cons [of "t' # ts"] by auto
  from t' obtain c cs where c: "t' = c # cs" "c \<noteq> CHR '',''"
    by (cases t') auto
  from J c have J': "?J = c # (cs @ rest)" by simp
  have tw: "takeWhile (\<lambda>x. x \<in> set '','') (CHR '','' # ?J) = '',''"
    using c(2) by (simp add: J')
  have dw: "dropWhile (\<lambda>x. x \<in> set '','') (CHR '','' # ?J) = ?J"
    using c(2) by (simp add: J')
  have "re_split_aux '','' 0 n False [] (join_commas (t # t' # ts))
      = re_split_aux '','' 0 n False t (CHR '','' # ?J)"
    using re_split_aux_skip [OF t(2), of 0 n "[]" "CHR '','' # ?J"] t(1,3) by simp
  also have "\<dots> = t # '','' # re_split_aux '','' 0 (Suc n) False [] ?J"
    using tw dw by (simp add: backslash_def del: takeWhile.simps dropWhile.simps)
  finally have "every_other (re_split_aux '','' 0 n False [] (join_commas (t # t' # ts)))
      = t # every_other (re_split_aux '','' 0 (Suc n) False [] ?J)"
    by simp
  moreover have "every_other (re_split_aux '','' 0 (Suc n) False [] ?J) = t' # ts"
    using 3(1) [of "Suc n"] 3(3) by simp
  ultimately show ?case by simp
qed

lemma split_join_commas:
  "ts \<noteq> [] \<Longrightarrow>
   \<forall>t \<in> set ts. t \<noteq> [] \<and> \<not> has_unescaped '','' False t \<and> last t \<noteq> backslash \<Longrightarrow>
   split_on_chars (join_commas ts) '','' None False = ts"
  by (simp add: split_on_chars_def re_split_def every_other_split_join)

lemma searcher_map_Some:
  "searcher_map fm nm = Some sr \<Longrightarrow> (\<exists>k. (k, sr) \<in> set fm) \<and> searcher_name sr = nm"
proof -
  assume "searcher_map fm nm = Some sr"
  then have "(nm, sr) \<in> set (rev (map (\<lambda>(k, s). (searcher_name s, s)) fm))"
    unfolding searcher_map_def by (rule map_of_SomeD)
  then show ?thesis by auto
qed

lemma searcher_map_registered:
  assumes "distinct (map (\<lambda>(k, s). searcher_name s) fm)" and "(k, sr) \<in> set fm"
  shows "searcher_map fm (searcher_name sr) = Some sr"
proof -
  let ?xs = "rev (map (\<lambda>(k, s). (searcher_name s, s)) fm)"
  have "map fst ?xs = rev (map (\<lambda>(k, s). searcher_name s) fm)"
    by (simp add: rev_map comp_def case_prod_beta)
  with assms(1) have "distinct (map fst ?xs)" by simp
  moreover have "(searcher_name sr, sr) \<in> set ?xs"
    using assms(2) by force
  ultimately show ?thesis
    unfolding searcher_map_def by (rule map_of_is_SomeI)
qed

lemma searcher_map_iff:
  "distinct (map (\<lambda>(k, s). searcher_name s) fm) \<Longrightarrow>
   searcher_map fm nm = Some sr \<longleftrightarrow> (\<exists>k. (k, sr) \<in> set fm) \<and> searcher_name sr = nm"
  using searcher_map_Some searcher_map_registered by blast

lemma any_match_fcn_total:
  "\<forall>(nm, x) \<in> set md. \<forall>sr. sm nm = Some sr \<longrightarrow> (\<exists>b. contains E sr v x = Inr b) \<Longrightarrow>
   \<exists>b. any_match_fcn E sm v md = Inr b"
proof (induction md)
  case Nil
  show ?case by (rule exI [of _ False]) simp
next
  case (Cons p md)
  obtain nm x where p: "p = (nm, x)" by (cases p)
  from Cons have "\<exists>b. any_match_fcn E sm v md = Inr b" by auto
  then obtain b' where ih: "any_match_fcn E sm v md = Inr b'" ..
  show ?case
  proof (cases "sm nm")
    case None
    with ih p show ?thesis by simp
  next
    case (Some sr)
    with Cons.prems p obtain b where "contains E sr v x = Inr b" by auto
    with Some ih p have "any_match_fcn E sm v (p # md) = Inr (if b then True else b')"
      by simp
    then show ?thesis ..
  qed
qed

lemma make_any_match_fcn_registered:
  assumes d: "distinct (map (\<lambda>(k, s). searcher_name s) fm)"
      and r: "make_any_match_fcn E s fm md = Inr b"
  shows "b = (\<exists>(nm, x) \<in> set md. \<exists>(k, sr) \<in> set fm. searcher_name sr = nm \<and>
                contains E sr (strip (remove_escapes s special_chars)) x = Inr True)"
proof -
  let ?v = "strip (remove_escapes s special_chars)"
  from r have "any_match_fcn E (searcher_map fm) ?v md = Inr b"
    by (simp add: make_any_match_fcn_def)
  then have "b = (\<exists>(nm, x) \<in> set md. \<exists>sr. searcher_map fm nm = Some sr \<and>
                contains E sr ?v x = Inr True)"
    by (rule any_match_fcn_Inr)
  also have "\<dots> = (\<exists>(nm, x) \<in> set md. \<exists>(k, sr) \<in> set fm. searcher_name sr = nm \<and>
                contains E sr ?v x = Inr True)"
    unfolding searcher_map_iff [OF d] by fastforce
  finally show ?thesis .
qed

lemma make_any_match_fcn_total:
  assumes "\<forall>(nm, x) \<in> set md. \<forall>(k, sr) \<in> set fm. searcher_name sr = nm \<longrightarrow>
             (\<exists>b. contains E sr (strip (remove_escapes s special_chars)) x = Inr b)"
  shows "\<exists>b. make_any_match_fcn E s fm md = Inr b"
proof -
  have "\<forall>(nm, x) \<in> set md. \<forall>sr. searcher_map fm nm = Some sr \<longrightarrow>
          (\<exists>b. contains E sr (strip (remove_escapes s special_chars)) x = Inr b)"
    using assms searcher_map_Some by fastforce
  then show ?thesis
    unfolding make_any_match_fcn_def Let_def by (rule any_match_fcn_total)
qed

lemma registries_distinct:
  "distinct (map (\<lambda>(k, s). searcher_name s) S3_SEARCH_FIELDS_MAP)"
  "distinct (map (\<lambda>(k, s). searcher_name s) GCS_SEARCH_FIELDS_MAP)"
  "distinct (map (\<lambda>(k, s). searcher_name s) GOOGLE_DRIVE_SEARCH_FIELDS_MAP)"
  by (simp_all add: S3_SEARCH_FIELDS_MAP_def GCS_SEARCH_FIELDS_MAP_def
      GOOGLE_DRIVE_SEARCH_FIELDS_MAP_def)


text \<open>
  Claim C3. The clauses of a search expression are the texts between its unescaped
  commas: clauses joined by commas parse back to exactly those clauses, one predicate
  each. The records the filter keeps are exactly the input records, in their order, on
  which the predicate of every clause returns True, and the filter returns whenever
  every clause parses and its predicate raises on none of the input records. A clause
  with no unescaped operator character is a bare literal: its predicate holds of a
  record exactly when the record has a field, read by a searcher of the field map,
  whose rendered value contains the literal, where String fields are rendered by
  \<^verbatim>\<open>str\<close>, ByteSize fields by \<^verbatim>\<open>_render_bytes\<close> and Datetime fields by
  \<^verbatim>\<open>_render_datetime\<close>, and contains means that the literal is a substring.
\<close>

theorem C3_filter_conjunction:
  assumes "q \<noteq> []"
  shows "parse_search_str E q fm
           = map (parse_clause E fm q) (split_on_chars q '','' None False)
     \<and> (ts \<noteq> [] \<and> (\<forall>t \<in> set ts. t \<noteq> [] \<and> \<not> has_unescaped '','' False t \<and> last t \<noteq> backslash)
          \<longrightarrow> split_on_chars (join_commas ts) '','' None False = ts)
     \<and> (filter_stage E records (Some q) fm = Inr out \<longrightarrow>
            out = filter (\<lambda>r. \<forall>s \<in> set (split_on_chars q '','' None False).
                              \<exists>f. parse_clause E fm q s = Inr f \<and> f r = Inr True) records)
     \<and> ((\<forall>s \<in> set (split_on_chars q '','' None False).
            \<exists>f. parse_clause E fm q s = Inr f \<and> (\<forall>r \<in> set records. \<exists>b. f r = Inr b))
          \<longrightarrow> (\<exists>out'. filter_stage E records (Some q) fm = Inr out'))
     \<and> (limit \<le> 0 \<and> filter_records E records limit (Some q) None True fm = Inr out \<longrightarrow>
            out = filter (\<lambda>r. \<forall>s \<in> set (split_on_chars q '','' None False).
                              \<exists>f. parse_clause E fm q s = Inr f \<and> f r = Inr True) records)
     \<and> (\<not> has_unescaped '':=<>'' False s \<longrightarrow>
            parse_clause E fm q s = Inr (make_any_match_fcn E s fm))
     \<and> (distinct (map (\<lambda>(k, sr). searcher_name sr) fm) \<and> make_any_match_fcn E s fm md = Inr b
          \<longrightarrow> b = (\<exists>(nm, x) \<in> set md. \<exists>(k, sr) \<in> set fm. searcher_name sr = nm \<and>
                      contains E sr (strip (remove_escapes s special_chars)) x = Inr True))
     \<and> ((\<forall>(nm, x) \<in> set md. \<forall>(k, sr) \<in> set fm. searcher_name sr = nm \<longrightarrow>
            (\<exists>b'. contains E sr (strip (remove_escapes s special_chars)) x = Inr b'))
          \<longrightarrow> (\<exists>b'. make_any_match_fcn E s fm md = Inr b'))
     \<and> distinct (map (\<lambda>(k, sr). searcher_name sr) S3_SEARCH_FIELDS_MAP)
     \<and> distinct (map (\<lambda>(k, sr). searcher_name sr) GCS_SEARCH_FIELDS_MAP)
     \<and> distinct (map (\<lambda>(k, sr). searcher_name sr) GOOGLE_DRIVE_SEARCH_FIELDS_MAP)
     \<and> contains E (StringSearcher nm) u x = Inr (\<exists>p p'. py_str E x = p @ u @ p')
     \<and> (render_bytes E x = Inr rb \<longrightarrow>
            contains E (BytesSearcher nm) u x = Inr (\<exists>p p'. rb = p @ u @ p'))
     \<and> (render_datetime E x = Inr rd \<longrightarrow>
            contains E (DatetimeSearcher nm) u x = Inr (\<exists>p p'. rd = p @ u @ p'))"
proof -
  let ?cl = "split_on_chars q '','' None False"
  let ?keep = "\<lambda>r. \<forall>s \<in> set ?cl. \<exists>f. parse_clause E fm q s = Inr f \<and> f r = Inr True"
  have 1: "parse_search_str E q fm = map (parse_clause E fm q) ?cl"
    by (simp add: parse_search_str_def)
  have 2: "ts \<noteq> [] \<and> (\<forall>t \<in> set ts. t \<noteq> [] \<and> \<not> has_unescaped '','' False t \<and> last t \<noteq> backslash)
          \<longrightarrow> split_on_chars (join_commas ts) '','' None False = ts"
    using split_join_commas by blast
  have fs: "filter_stage E records (Some q) fm = apply_matches (parse_search_str E q fm) records"
    using assms by (simp add: filter_stage_def)
  have keep: "(\<forall>m \<in> set (parse_search_str E q fm). \<exists>f. m = Inr f \<and> f r = Inr True) = ?keep r" for r
    unfolding 1 by auto
  have 3: "out' = filter ?keep records" if "filter_stage E records (Some q) fm = Inr out'" for out'
  proof -
    from that have "out' = filter (\<lambda>r. \<forall>m \<in> set (parse_search_str E q fm).
        \<exists>f. m = Inr f \<and> f r = Inr True) records"
      unfolding fs using apply_matches_Inr by blast
    then show ?thesis unfolding keep .
  qed
  have 4: "\<exists>out'. filter_stage E records (Some q) fm = Inr out'"
    if "\<forall>s \<in> set ?cl. \<exists>f. parse_clause E fm q s = Inr f \<and> (\<forall>r \<in> set records. \<exists>b. f r = Inr b)"
  proof -
    from that have "\<forall>m \<in> set (parse_search_str E q fm).
        \<exists>f. m = Inr f \<and> (\<forall>r \<in> set records. \<exists>b. f r = Inr b)"
      unfolding 1 by auto
    then show ?thesis
      unfolding fs by (rule apply_matches_total)
  qed
  have "filter_stage E records (Some q) fm = Inr out"
    if "limit \<le> 0" and "filter_records E records limit (Some q) None True fm = Inr out"
    using that
    by (cases "filter_stage E records (Some q) fm")
       (auto simp: filter_records_def sort_stage_def limit_stage_def)
  with 3 have 5: "limit \<le> 0 \<and> filter_records E records limit (Some q) None True fm = Inr out \<longrightarrow>
            out = filter ?keep records"
    by blast
  have 6: "\<not> has_unescaped '':=<>'' False s \<longrightarrow>
            parse_clause E fm q s = Inr (make_any_match_fcn E s fm)"
    by (simp add: parse_clause_def split_on_chars_no_unescaped)
  have 7: "distinct (map (\<lambda>(k, sr). searcher_name sr) fm) \<and> make_any_match_fcn E s fm md = Inr b
          \<longrightarrow> b = (\<exists>(nm, x) \<in> set md. \<exists>(k, sr) \<in> set fm. searcher_name sr = nm \<and>
                      contains E sr (strip (remove_escapes s special_chars)) x = Inr True)"
    using make_any_match_fcn_registered by blast
  have 8: "(\<forall>(nm, x) \<in> set md. \<forall>(k, sr) \<in> set fm. searcher_name sr = nm \<longrightarrow>
            (\<exists>b'. contains E sr (strip (remove_escapes s special_chars)) x = Inr b'))
          \<longrightarrow> (\<exists>b'. make_any_match_fcn E s fm md = Inr b')"
    using make_any_match_fcn_total by blast
  have 10: "contains E (StringSearcher nm) u x = Inr (\<exists>p p'. py_str E x = p @ u @ p')"
    by (simp add: str_in_iff)
  have 11: "render_bytes E x = Inr rb \<longrightarrow>
            contains E (BytesSearcher nm) u x = Inr (\<exists>p p'. rb = p @ u @ p')"
    by (simp add: str_in_iff)
  have 12: "render_datetime E x = Inr rd \<longrightarrow>
            contains E (DatetimeSearcher nm) u x = Inr (\<exists>p p'. rd = p @ u @ p')"
    by (simp add: str_in_iff)
  from 1 2 3 4 5 6 7 8 registries_distinct 10 11 12 show ?thesis
    by (intro conjI impI) blast+
qed

text \<open>
  The theorem at the query \<^verbatim>\<open>text,name:b\<close> on two records of an S3 listing: the bare
  literal \<^verbatim>\<open>text\<close> holds of both records, the second clause of one, and the filter
  keeps that one.
\<close>

theorem C3_filter_conjunction_witness:
  "''text,name:b'' \<noteq> []
   \<and> join_commas [''text'', ''name:b''] = ''text,name:b''
   \<and> split_on_chars ''text,name:b'' '','' None False = [''text'', ''name:b'']
   \<and> filter_stage T_env [s3_record ''a'' (PInt 1), s3_record ''b'' (PInt 2)]
        (Some ''text,name:b'') S3_SEARCH_FIELDS_MAP = Inr [s3_record ''b'' (PInt 2)]
   \<and> [s3_record ''b'' (PInt 2)]
       = filter (\<lambda>r. \<forall>s \<in> set (split_on_chars ''text,name:b'' '','' None False).
                      \<exists>f. parse_clause T_env S3_SEARCH_FIELDS_MAP ''text,name:b'' s = Inr f
                          \<and> f r = Inr True)
           [s3_record ''a'' (PInt 1), s3_record ''b'' (PInt 2)]
   \<and> filter_stage T_env [s3_record ''a'' (PInt 1), s3_record ''b'' (PInt 2)]
        (Some ''text'') S3_SEARCH_FIELDS_MAP
      = Inr [s3_record ''a'' (PInt 1), s3_record ''b'' (PInt 2)]
   \<and> make_any_match_fcn T_env ''text'' S3_SEARCH_FIELDS_MAP (s3_record ''a'' (PInt 1)) = Inr True
   \<and> make_any_match_fcn T_env ''zzz'' S3_SEARCH_FIELDS_MAP (s3_record ''a'' (PInt 1)) = Inr False"
proof -
  have ne: "''text,name:b'' \<noteq> []" by simp
  note th = C3_filter_conjunction [OF ne, where E = T_env and fm = S3_SEARCH_FIELDS_MAP
      and ts = "[''text'', ''name:b'']"
      and records = "[s3_record ''a'' (PInt 1), s3_record ''b'' (PInt 2)]"
      and out = "[s3_record ''b'' (PInt 2)]"]
  have j: "join_commas [''text'', ''name:b''] = ''text,name:b''" by simp
  have ok: "[''text'', ''name:b''] \<noteq> [] \<and>
      (\<forall>t \<in> set [''text'', ''name:b'']. t \<noteq> [] \<and> \<not> has_unescaped '','' False t \<and> last t \<noteq> backslash)"
    by (simp add: backslash_def)
  have sp: "split_on_chars ''text,name:b'' '','' None False = [''text'', ''name:b'']"
    using th [THEN conjunct2, THEN conjunct1, THEN mp, OF ok] unfolding j .
  have e: "filter_stage T_env [s3_record ''a'' (PInt 1), s3_record ''b'' (PInt 2)]
        (Some ''text,name:b'') S3_SEARCH_FIELDS_MAP = Inr [s3_record ''b'' (PInt 2)]"
    by code_simp
  have f: "[s3_record ''b'' (PInt 2)]
       = filter (\<lambda>r. \<forall>s \<in> set (split_on_chars ''text,name:b'' '','' None False).
                      \<exists>f. parse_clause T_env S3_SEARCH_FIELDS_MAP ''text,name:b'' s = Inr f
                          \<and> f r = Inr True)
           [s3_record ''a'' (PInt 1), s3_record ''b'' (PInt 2)]"
    by (rule th [THEN conjunct2, THEN conjunct2, THEN conjunct1, THEN mp, OF e])
  have g: "filter_stage T_env [s3_record ''a'' (PInt 1), s3_record ''b'' (PInt 2)]
        (Some ''text'') S3_SEARCH_FIELDS_MAP
      = Inr [s3_record ''a'' (PInt 1), s3_record ''b'' (PInt 2)]"
    by code_simp
  have h: "make_any_match_fcn T_env ''text'' S3_SEARCH_FIELDS_MAP (s3_record ''a'' (PInt 1)) = Inr True"
    by code_simp
  have i: "make_any_match_fcn T_env ''zzz'' S3_SEARCH_FIELDS_MAP (s3_record ''a'' (PInt 1)) = Inr False"
    by code_simp
  show ?thesis
    by (intro conjI) (rule ne j sp e f g h i)+
qed

end
